theory Spec2Isabelle
  imports Main
begin

section \<open>The Datadog hook for logrus: data model\<close>

text \<open>
  The repository holds two generations of the same hook: the one configured from the
  environment (\<^verbatim>\<open>datadog/datadog.go\<close>, \<^verbatim>\<open>New(apiKey, minLevel, errorHandler)\<close>) and the
  one configured from an \<^verbatim>\<open>Options\<close> struct (\<^verbatim>\<open>New(options)\<close>, with client batching
  that can be switched off and a \<^verbatim>\<open>done\<close> channel). Their \<^verbatim>\<open>send\<close> and the intake loop
  of \<^verbatim>\<open>batch\<close> agree statement for statement; where they differ (construction, the
  ticker goroutine, \<^verbatim>\<open>Close\<close>) both are modelled, the environment one under a name
  ending in \<open>Env\<close>.

  Byte slices are \<^typ>\<open>string\<close> (a list of 8-bit characters), Go's \<^verbatim>\<open>int\<close> is \<^typ>\<open>int\<close>
  (no counter below comes near 64 bits), \<^verbatim>\<open>len\<close> is \<^const>\<open>length\<close>.
\<close>

definition maxContentSize :: nat where
  "maxContentSize = 5 * 1024 * 1024"

definition maxLogSize :: nat where
  "maxLogSize = 256 * 1024"

definition maxLogCount :: nat where
  "maxLogCount = 1000"

definition basePath :: string where
  "basePath = ''/v1/input''"

definition apiKeyHeader :: string where
  "apiKeyHeader = ''DD-API-KEY''"

definition defaultMaxRetries :: int where
  "defaultMaxRetries = 5"

definition DatadogHostUS :: string where
  "DatadogHostUS = ''https://http-intake.logs.datadoghq.com''"

definition DatadogHostEU :: string where
  "DatadogHostEU = ''https://http-intake.logs.datadoghq.eu''"

definition defaultService :: string where
  "defaultService = ''unknown''"

definition defaultHost :: string where
  "defaultHost = ''unknown''"

definition defaultSource :: string where
  "defaultSource = ''golang''"

definition defaultClientBatching :: bool where
  "defaultClientBatching = True"

datatype Level = PanicLevel | FatalLevel | ErrorLevel | WarnLevel | InfoLevel | DebugLevel | TraceLevel

text \<open>The errors the hook returns, prints or sends on its error channel.\<close>

datatype error =
    ErrNoApiKey
  | ErrFormat string
  | ErrTooLarge nat nat
  | ErrUrl string
  | ErrRequest string
  | ErrFailedToSend int
  | ErrParseInt string

text \<open>
  The \<^verbatim>\<open>DatadogHook\<close> struct. The three fields both generations have are a base
  record, so that \<open>send\<close> and the goroutines of \<open>batch\<close>, which read nothing else, are
  written once for both; each generation extends it with its own fields. The
  formatter is among the collaborators below; channels, ticker and wait group are in
  the state.
\<close>

record HookBase =
  ApiKey :: string
  MinLevel :: Level
  MaxRetry :: int

record DatadogHook = HookBase +
  Service :: string
  Hostname :: string
  Source :: string
  Tags :: "(string \<times> string) list option"
  ClientBatchingEnabled :: bool
  DatadogEndpoint :: string

record GlobalTags =
  tag_Service :: string
  tag_Environment :: string
  tag_Maintainer :: string
  tag_Application :: string
  tag_Hostname :: string

record DatadogHookEnv = HookBase +
  TagsEnv :: GlobalTags
  datadogEndpoint :: string

record Options =
  opt_ApiKey :: "string option"
  opt_MinimumLoggingLevel :: "Level option"
  opt_DatadogEndpoint :: "string option"
  opt_Service :: "string option"
  opt_Host :: "string option"
  opt_Source :: "string option"
  opt_GlobalTags :: "(string \<times> string) list option"
  opt_ClientBatchingEnabled :: "bool option"

record request =
  req_method :: string
  req_url :: string
  req_header :: "(string \<times> string) list"
  req_body :: string

text \<open>What \<^verbatim>\<open>http.DefaultClient.Do\<close> gives back: an error, or a response with its status code.\<close>

datatype response = TransportError | Response int

text \<open>
  The collaborators the hook calls but does not define: the formatter, the URL builder
  (\<^verbatim>\<open>buildUrl\<close>, \<^verbatim>\<open>datadogURL\<close>: \<^verbatim>\<open>net/url\<close> and the iteration order of the tag map), \<^verbatim>\<open>http.NewRequest\<close> and the
  transport, a state machine over a network state \<open>'n\<close>.
\<close>

record ('e, 'n, 'h) env =
  Format :: "'e \<Rightarrow> error + string"
  buildUrl :: "'h \<Rightarrow> error + string"
  NewRequest :: "string \<Rightarrow> string \<Rightarrow> string \<Rightarrow> error + request"
  Do :: "request \<Rightarrow> 'n \<Rightarrow> response \<times> 'n"

text \<open>
  The mutable side. \<open>batch\<close> and \<open>size_b\<close> are the two variables the goroutines of
  \<^verbatim>\<open>batch\<close> share; \<open>intake_alive\<close> and \<open>ticker_alive\<close> say whether its first and second
  goroutine are still in their loops, \<open>wg\<close> is the wait group's counter, \<open>entryC_closed\<close>
  and \<open>ticker_stopped\<close> the state of the intake channel and of the ticker.
  The remaining fields record effects: \<open>handed\<close> the argument of every call of \<^verbatim>\<open>send\<close>,
  \<open>requests\<close> every request given to the transport, \<open>reported\<close> every error printed (or
  sent on \<^verbatim>\<open>errorC\<close>), each in order; \<open>net\<close> is the transport's state.
\<close>

record 'n state =
  batch :: "string list"
  size_b :: nat
  intake_alive :: bool
  ticker_alive :: bool
  wg :: int
  entryC_closed :: bool
  ticker_stopped :: bool
  handed :: "string list list"
  requests :: "request list"
  reported :: "error list"
  net :: 'n

definition report :: "error \<Rightarrow> 'n state \<Rightarrow> 'n state" where
  "report err s = s\<lparr>reported := reported s @ [err]\<rparr>"

section \<open>The Sender\<close>

text \<open>
  \<^verbatim>\<open>err != nil || resp.StatusCode > 399\<close> (the options version writes \<^verbatim>\<open>>= 400\<close>).
\<close>

definition failed :: "response \<Rightarrow> bool" where
  "failed r = (case r of TransportError \<Rightarrow> True | Response code \<Rightarrow> code > 399)"

text \<open>
  The framing loop of \<^verbatim>\<open>send\<close>: \<open>frame_from n i ls buf\<close> runs it over the lines \<open>ls\<close>
  that start at index \<open>i\<close> of a batch of \<open>n\<close> lines.
\<close>

fun frame_from :: "nat \<Rightarrow> nat \<Rightarrow> string list \<Rightarrow> string \<Rightarrow> string" where
  "frame_from n i [] buf = buf"
| "frame_from n i (line # ls) buf =
     (let buf1 = (if i = 0 then buf @ ''['' else buf);
          buf2 = buf1 @ line
      in if int i = int n - 1 then frame_from n (i + 1) ls (buf2 @ '']'')
         else frame_from n (i + 1) ls (buf2 @ '',''))"

definition frame :: "string list \<Rightarrow> string" where
  "frame b = frame_from (length b) 0 b []"

text \<open>
  The retry loop of \<^verbatim>\<open>send\<close>, entered with \<open>i = 0\<close>. Every pass gives the transport the
  request built before the loop (the same \<^verbatim>\<open>*http.Request\<close>; what is left to read of its
  body on a later pass is part of the transport's state); a failure increments \<open>i\<close> and
  either gives up or goes round again. The counter never passes \<open>max 1 MaxRetry\<close>.
\<close>

function retry :: "('e, 'n, 'x HookBase_scheme) env \<Rightarrow> 'x HookBase_scheme \<Rightarrow> request \<Rightarrow> int \<Rightarrow> 'n state \<Rightarrow> 'n state" where
  "retry E h req i s =
     (case Do E req (net s) of
        (resp, n') \<Rightarrow>
          let s' = s\<lparr>net := n', requests := requests s @ [req]\<rparr> in
          if failed resp then
            (if MaxRetry h < 0 \<or> i + 1 \<ge> MaxRetry h
             then report (ErrFailedToSend (MaxRetry h)) s'
             else retry E h req (i + 1) s')
          else s')"
  by pat_completeness auto
termination
  by (relation "measure (\<lambda>(E, h, req, i, s). nat (MaxRetry h - i))") auto

definition headers :: "'x HookBase_scheme \<Rightarrow> (string \<times> string) list" where
  "headers h = [(apiKeyHeader, ApiKey h), (''Content-Type'', ''application/json'')]"

definition send :: "('e, 'n, 'x HookBase_scheme) env \<Rightarrow> 'x HookBase_scheme \<Rightarrow> string list \<Rightarrow> 'n state \<Rightarrow> 'n state" where
  "send E h b s0 =
     (let s = s0\<lparr>handed := handed s0 @ [b]\<rparr> in
      if ApiKey h = [] \<or> length b = 0 then s
      else
        let buf = frame b in
        if length buf = 0 then s
        else
          case buildUrl E h of
            Inl err \<Rightarrow> report err s
          | Inr url \<Rightarrow>
              (case NewRequest E ''POST'' url buf of
                 Inl err \<Rightarrow> report err s
               | Inr req0 \<Rightarrow>
                   retry E h (req0\<lparr>req_header := headers h\<rparr>) 0 s))"

section \<open>The goroutines of \<^verbatim>\<open>batch\<close>\<close>

text \<open>
  One pass of the first goroutine's loop \<^verbatim>\<open>for entry := range h.entryC\<close>, for the entry
  received. Both \<^verbatim>\<open>return\<close> statements leave the loop and end the goroutine; in the
  options version \<^verbatim>\<open>h.wg.Done()\<close> is deferred, so it runs on them too.
\<close>

definition intake :: "('e, 'n, 'x HookBase_scheme) env \<Rightarrow> 'x HookBase_scheme \<Rightarrow> 'e \<Rightarrow> 'n state \<Rightarrow> 'n state" where
  "intake E h entry s =
     (case Format E entry of
        Inl err \<Rightarrow> (report err s)\<lparr>intake_alive := False, wg := wg s - 1\<rparr>
      | Inr formatted \<Rightarrow>
          let s1 = (if size_b s + length formatted \<ge> maxContentSize \<or> length (batch s) = maxLogCount
                    then (send E h (batch s) s)\<lparr>batch := [], size_b := 0\<rparr>
                    else s)
          in if length formatted > maxLogSize
             then (report (ErrTooLarge maxLogSize (length formatted)) s1)
                    \<lparr>intake_alive := False, wg := wg s1 - 1\<rparr>
             else s1\<lparr>batch := batch s1 @ [formatted], size_b := size_b s1 + length formatted\<rparr>)"

text \<open>
  The same pass in \<^verbatim>\<open>datadog/datadog.go\<close>: \<^verbatim>\<open>h.wg.Done()\<close> stands after the loop, and the
  two \<^verbatim>\<open>return\<close> statements skip it.
\<close>

definition intakeEnv :: "('e, 'n, 'x HookBase_scheme) env \<Rightarrow> 'x HookBase_scheme \<Rightarrow> 'e \<Rightarrow> 'n state \<Rightarrow> 'n state" where
  "intakeEnv E h entry s =
     (case Format E entry of
        Inl err \<Rightarrow> (report err s)\<lparr>intake_alive := False\<rparr>
      | Inr formatted \<Rightarrow>
          let s1 = (if size_b s + length formatted \<ge> maxContentSize \<or> length (batch s) = maxLogCount
                    then (send E h (batch s) s)\<lparr>batch := [], size_b := 0\<rparr>
                    else s)
          in if length formatted > maxLogSize
             then (report (ErrTooLarge maxLogSize (length formatted)) s1)\<lparr>intake_alive := False\<rparr>
             else s1\<lparr>batch := batch s1 @ [formatted], size_b := size_b s1 + length formatted\<rparr>)"

text \<open>The second goroutine: what it does for a tick, and (options version) for \<^verbatim>\<open>done\<close>.\<close>

definition tick :: "('e, 'n, 'x HookBase_scheme) env \<Rightarrow> 'x HookBase_scheme \<Rightarrow> 'n state \<Rightarrow> 'n state" where
  "tick E h s = (send E h (batch s) s)\<lparr>batch := [], size_b := 0\<rparr>"

definition on_done :: "('e, 'n, 'x HookBase_scheme) env \<Rightarrow> 'x HookBase_scheme \<Rightarrow> 'n state \<Rightarrow> 'n state" where
  "on_done E h s = (let s1 = send E h (batch s) s in s1\<lparr>ticker_alive := False, wg := wg s1 - 1\<rparr>)"

section \<open>The hook's methods\<close>

text \<open>
  A call returns (with a result and the state it leaves), blocks for ever, or ends in a
  run-time panic. The goroutines are taken at rest between calls: the first one waiting
  to receive from \<^verbatim>\<open>entryC\<close>, the second one waiting for a tick (or for \<^verbatim>\<open>done\<close>), and a
  call's result state is the state once they are at rest again.
\<close>

datatype ('r, 's) outcome = Returns 'r 's | Blocks 's | Panics 's

fun final :: "('r, 's) outcome \<Rightarrow> 's" where
  "final (Returns r s) = s"
| "final (Blocks s) = s"
| "final (Panics s) = s"

fun returns :: "('r, 's) outcome \<Rightarrow> bool" where
  "returns (Returns r s) = True"
| "returns (Blocks s) = False"
| "returns (Panics s) = False"

text \<open>
  \<^verbatim>\<open>Fire\<close> of the options version. With batching, \<^verbatim>\<open>h.entryC <- *entry\<close> panics on a
  closed channel, completes when the first goroutine receives the entry, and blocks for
  ever when that goroutine has ended (the channel has no buffer). Without batching the
  entry is formatted and sent inline.
\<close>

definition Fire :: "('e, 'n, 'x DatadogHook_scheme) env \<Rightarrow> 'x DatadogHook_scheme \<Rightarrow> 'e \<Rightarrow> 'n state
    \<Rightarrow> (error option, 'n state) outcome" where
  "Fire E h entry s =
     (if ClientBatchingEnabled h then
        (if entryC_closed s then Panics s
         else if intake_alive s then Returns None (intake E h entry s)
         else Blocks s)
      else
        (case Format E entry of
           Inl err \<Rightarrow> Returns (Some err) s
         | Inr formatted \<Rightarrow> Returns None (send E h [formatted] s)))"

definition FireEnv :: "('e, 'n, 'x HookBase_scheme) env \<Rightarrow> 'x HookBase_scheme \<Rightarrow> 'e \<Rightarrow> 'n state
    \<Rightarrow> (error option, 'n state) outcome" where
  "FireEnv E h entry s =
     (if entryC_closed s then Panics s
      else if intake_alive s then Returns None (intakeEnv E h entry s)
      else Blocks s)"

text \<open>
  \<^verbatim>\<open>Close\<close> of the options version: \<^verbatim>\<open>close(h.entryC)\<close> (a panic when already closed)
  ends the first goroutine's loop, \<^verbatim>\<open>h.ticker.Stop()\<close>, then \<^verbatim>\<open>done\<close> is signalled from a
  new goroutine and \<^verbatim>\<open>h.wg.Wait()\<close> waits for the counter to reach zero; \<^verbatim>\<open>close(h.done)\<close>
  comes last. When the second goroutine is not there to receive the signal (batching
  off), the signalling goroutine is still blocked in its send when \<^verbatim>\<open>done\<close> is closed:
  a send on a closed channel, which panics.
\<close>

definition Close :: "('e, 'n, 'x HookBase_scheme) env \<Rightarrow> 'x HookBase_scheme \<Rightarrow> 'n state
    \<Rightarrow> (unit, 'n state) outcome" where
  "Close E h s =
     (if entryC_closed s then Panics s
      else
        let s1 = s\<lparr>entryC_closed := True\<rparr>;
            s2 = (if intake_alive s1 then s1\<lparr>intake_alive := False, wg := wg s1 - 1\<rparr> else s1);
            s3 = s2\<lparr>ticker_stopped := True\<rparr>
        in if ticker_alive s3 then
             (let s4 = on_done E h s3 in if wg s4 = 0 then Returns () s4 else Blocks s4)
           else if wg s3 = 0 then Panics s3
           else Blocks s3)"

text \<open>
  \<^verbatim>\<open>Close\<close> of \<^verbatim>\<open>datadog/datadog.go\<close>: the same without \<^verbatim>\<open>done\<close>. The second goroutine is in
  \<^verbatim>\<open>for range ticker\<close>; \<^verbatim>\<open>Stop\<close> does not close a ticker's channel, so that loop never
  ends and never reaches its \<^verbatim>\<open>h.wg.Done()\<close>.
\<close>

definition CloseEnv :: "'n state \<Rightarrow> (unit, 'n state) outcome" where
  "CloseEnv s =
     (if entryC_closed s then Panics s
      else
        let s1 = s\<lparr>entryC_closed := True\<rparr>;
            s2 = (if intake_alive s1 then s1\<lparr>intake_alive := False, wg := wg s1 - 1\<rparr> else s1);
            s3 = s2\<lparr>ticker_stopped := True\<rparr>
        in if wg s3 = 0 then Returns () s3 else Blocks s3)"

section \<open>Construction\<close>

text \<open>
  The state a new hook starts in: \<open>started\<close> says whether \<^verbatim>\<open>go hook.batch(hook.ticker.C)\<close>
  ran, which starts both goroutines (each after a \<^verbatim>\<open>h.wg.Add(1)\<close>).
\<close>

definition start :: "bool \<Rightarrow> error list \<Rightarrow> 'n \<Rightarrow> 'n state" where
  "start started logged n0 =
     \<lparr>batch = [], size_b = 0, intake_alive = started, ticker_alive = started,
      wg = (if started then 2 else 0), entryC_closed = False, ticker_stopped = False,
      handed = [], requests = [], reported = logged, net = n0\<rparr>"

text \<open>\<^verbatim>\<open>New(options *Options)\<close>; \<open>None\<close> is the nil pointer, for the argument and for each field.\<close>

definition New :: "Options option \<Rightarrow> 'n \<Rightarrow> error + (DatadogHook \<times> 'n state)" where
  "New options n0 =
     (let opts = (case options of
                    None \<Rightarrow> \<lparr>opt_ApiKey = None, opt_MinimumLoggingLevel = None,
                              opt_DatadogEndpoint = None, opt_Service = None, opt_Host = None,
                              opt_Source = None, opt_GlobalTags = None,
                              opt_ClientBatchingEnabled = None\<rparr>
                  | Some given \<Rightarrow> given);
          batching = (case opt_ClientBatchingEnabled opts of None \<Rightarrow> defaultClientBatching | Some b \<Rightarrow> b);
          level = (case opt_MinimumLoggingLevel opts of None \<Rightarrow> InfoLevel | Some l \<Rightarrow> l)
      in case opt_ApiKey opts of
           None \<Rightarrow> Inl ErrNoApiKey
         | Some key \<Rightarrow>
             if key = [] then Inl ErrNoApiKey
             else
               let endpoint = (case opt_DatadogEndpoint opts of
                                 None \<Rightarrow> DatadogHostUS
                               | Some e \<Rightarrow> if e = [] then DatadogHostUS else e);
                   service = (case opt_Service opts of None \<Rightarrow> defaultService | Some v \<Rightarrow> v);
                   host = (case opt_Host opts of None \<Rightarrow> defaultHost | Some v \<Rightarrow> v);
                   source = (case opt_Source opts of None \<Rightarrow> defaultSource | Some v \<Rightarrow> v);
                   hook = \<lparr>ApiKey = key, MinLevel = level, MaxRetry = 5,
                           Service = service, Hostname = host, Source = source,
                           Tags = opt_GlobalTags opts, ClientBatchingEnabled = batching,
                           DatadogEndpoint = endpoint\<rparr>
               in Inr (hook, start (ClientBatchingEnabled hook) [] n0))"

text \<open>
  \<^verbatim>\<open>New(apiKey, minLevel, errorHandler)\<close> of \<^verbatim>\<open>datadog/datadog.go\<close>. The environment is the
  function \<open>getenv\<close> (\<^verbatim>\<open>os.Getenv\<close>: the empty string for an unset variable), and
  \<open>ParseInt\<close> stands for \<^verbatim>\<open>strconv.ParseInt(s, 0, 32)\<close>. The error handler only chooses
  how reported errors are printed. The message logged for an invalid
  \<^verbatim>\<open>DATADOG_MAX_RETRIES\<close> is kept as the first reported error.
\<close>

definition getenvOrDefault :: "(string \<Rightarrow> string) \<Rightarrow> string \<Rightarrow> string \<Rightarrow> string" where
  "getenvOrDefault getenv key defaultString =
     (let val = getenv key in if val \<noteq> [] then val else defaultString)"

definition lower_char :: "char \<Rightarrow> char" where
  "lower_char c =
     (let n = (of_char c :: nat) in if 65 \<le> n \<and> n \<le> 90 then char_of (n + 32) else c)"

definition ToLower :: "string \<Rightarrow> string" where
  "ToLower s = map lower_char s"

definition NewEnv :: "(string \<Rightarrow> string) \<Rightarrow> (string \<Rightarrow> error + int) \<Rightarrow> string option \<Rightarrow> Level \<Rightarrow> 'n
    \<Rightarrow> error + (DatadogHookEnv \<times> 'n state)" where
  "NewEnv getenv ParseInt apiKey minLevel n0 =
     (let globalTags = \<lparr>tag_Service = getenvOrDefault getenv ''SERVICE'' ''unknown'',
                        tag_Environment = getenvOrDefault getenv ''ENVIRONMENT'' ''unknown'',
                        tag_Maintainer = getenvOrDefault getenv ''MAINTAINER'' ''unknown'',
                        tag_Application = getenvOrDefault getenv ''APPLICATION'' ''unknown'',
                        tag_Hostname = getenvOrDefault getenv ''HOST'' ''0.0.0.0''\<rparr>;
          region = getenv ''DATADOG_REGION'';
          key = (case apiKey of None \<Rightarrow> getenv ''DATADOG_API_KEY'' | Some k \<Rightarrow> k)
      in if key = [] then Inl ErrNoApiKey
         else
           let (maxRetry, logged) =
                 (case ParseInt (getenvOrDefault getenv ''DATADOG_MAX_RETRIES'' ''5'') of
                    Inl err \<Rightarrow> (defaultMaxRetries, [err])
                  | Inr v \<Rightarrow> (v, []));
               endpoint = (if ToLower region = ''eu'' then DatadogHostEU else DatadogHostUS);
               hook = \<lparr>ApiKey = key, MinLevel = minLevel, MaxRetry = maxRetry,
                       TagsEnv = globalTags, datadogEndpoint = endpoint\<rparr>
           in Inr (hook, start True logged n0))"

section \<open>Runs\<close>

text \<open>
  What can happen to a hook, one thing at a time: a \<^verbatim>\<open>Fire\<close>, a tick of the ticker, a
  \<^verbatim>\<open>Close\<close>. A tick is taken by the second goroutine while it runs and the ticker is not
  stopped. A run ends at the first call that does not return.
\<close>

datatype 'e event = FireEv 'e | TickEv | CloseEv

definition step :: "('e, 'n, 'x DatadogHook_scheme) env \<Rightarrow> 'x DatadogHook_scheme \<Rightarrow> 'e event \<Rightarrow> 'n state
    \<Rightarrow> (unit, 'n state) outcome" where
  "step E h ev s =
     (case ev of
        FireEv entry \<Rightarrow>
          (case Fire E h entry s of
             Returns r s' \<Rightarrow> Returns () s'
           | Blocks s' \<Rightarrow> Blocks s'
           | Panics s' \<Rightarrow> Panics s')
      | TickEv \<Rightarrow> Returns () (if ticker_alive s \<and> \<not> ticker_stopped s then tick E h s else s)
      | CloseEv \<Rightarrow> Close E h s)"

fun run :: "('e, 'n, 'x DatadogHook_scheme) env \<Rightarrow> 'x DatadogHook_scheme \<Rightarrow> 'e event list \<Rightarrow> 'n state
    \<Rightarrow> (unit, 'n state) outcome" where
  "run E h [] s = Returns () s"
| "run E h (ev # evs) s =
     (case step E h ev s of
        Returns r s' \<Rightarrow> run E h evs s'
      | Blocks s' \<Rightarrow> Blocks s'
      | Panics s' \<Rightarrow> Panics s')"

definition stepEnv :: "('e, 'n, 'x HookBase_scheme) env \<Rightarrow> 'x HookBase_scheme \<Rightarrow> 'e event \<Rightarrow> 'n state
    \<Rightarrow> (unit, 'n state) outcome" where
  "stepEnv E h ev s =
     (case ev of
        FireEv entry \<Rightarrow>
          (case FireEnv E h entry s of
             Returns r s' \<Rightarrow> Returns () s'
           | Blocks s' \<Rightarrow> Blocks s'
           | Panics s' \<Rightarrow> Panics s')
      | TickEv \<Rightarrow> Returns () (if ticker_alive s \<and> \<not> ticker_stopped s then tick E h s else s)
      | CloseEv \<Rightarrow> CloseEnv s)"

fun runEnv :: "('e, 'n, 'x HookBase_scheme) env \<Rightarrow> 'x HookBase_scheme \<Rightarrow> 'e event list \<Rightarrow> 'n state
    \<Rightarrow> (unit, 'n state) outcome" where
  "runEnv E h [] s = Returns () s"
| "runEnv E h (ev # evs) s =
     (case stepEnv E h ev s of
        Returns r s' \<Rightarrow> runEnv E h evs s'
      | Blocks s' \<Rightarrow> Blocks s'
      | Panics s' \<Rightarrow> Panics s')"

section \<open>Vocabulary of the theorems\<close>

text \<open>
  For a transport started in state \<open>n\<close> and given the same request again and again:
  whether its first \<open>k\<close> responses are all failures, and its state after \<open>k\<close> requests.
\<close>

fun first_fails :: "('e, 'n, 'h) env \<Rightarrow> request \<Rightarrow> 'n \<Rightarrow> nat \<Rightarrow> bool" where
  "first_fails E req n 0 = True"
| "first_fails E req n (Suc k) =
     (failed (fst (Do E req n)) \<and> first_fails E req (snd (Do E req n)) k)"

fun net_after :: "('e, 'n, 'h) env \<Rightarrow> request \<Rightarrow> 'n \<Rightarrow> nat \<Rightarrow> 'n" where
  "net_after E req n 0 = n"
| "net_after E req n (Suc k) = net_after E req (snd (Do E req n)) k"

text \<open>The number of attempts the retry loop can still make when its counter is \<open>i\<close>.\<close>

definition allowed :: "'x HookBase_scheme \<Rightarrow> int \<Rightarrow> nat" where
  "allowed h i = (if MaxRetry h < 0 \<or> MaxRetry h \<le> i + 1 then 1 else nat (MaxRetry h - i))"

text \<open>The total of the lines' sizes, which \<open>size_b\<close> tracks.\<close>

definition content_size :: "string list \<Rightarrow> nat" where
  "content_size b = sum_list (map length b)"

text \<open>
  Sample collaborators for concrete runs. An entry is what the formatter makes of it
  (its line, or the formatter's error); the URL is the endpoint and the base path; the
  transport counts the requests it gets and answers each with the same status.
\<close>

definition sample_env :: "int \<Rightarrow> (error + string, nat, 'x DatadogHook_scheme) env" where
  "sample_env status =
     \<lparr>Format = (\<lambda>entry. entry),
      buildUrl = (\<lambda>h. Inr (DatadogEndpoint h @ basePath)),
      NewRequest = (\<lambda>m u b. Inr \<lparr>req_method = m, req_url = u, req_header = [], req_body = b\<rparr>),
      Do = (\<lambda>req n. (Response status, n + 1))\<rparr>"

definition sample_envEnv :: "int \<Rightarrow> (error + string, nat, DatadogHookEnv) env" where
  "sample_envEnv status =
     \<lparr>Format = (\<lambda>entry. entry),
      buildUrl = (\<lambda>h. Inr (datadogEndpoint h @ basePath)),
      NewRequest = (\<lambda>m u b. Inr \<lparr>req_method = m, req_url = u, req_header = [], req_body = b\<rparr>),
      Do = (\<lambda>req n. (Response status, n + 1))\<rparr>"

text \<open>A transport that fails the first \<open>k\<close> requests it gets and accepts every later one.\<close>

definition flaky_env :: "nat \<Rightarrow> (error + string, nat, 'x DatadogHook_scheme) env" where
  "flaky_env k =
     \<lparr>Format = (\<lambda>entry. entry),
      buildUrl = (\<lambda>h. Inr (DatadogEndpoint h @ basePath)),
      NewRequest = (\<lambda>m u b. Inr \<lparr>req_method = m, req_url = u, req_header = [], req_body = b\<rparr>),
      Do = (\<lambda>req n. (if n < k then Response 503 else Response 200, n + 1))\<rparr>"

text \<open>
  Collaborators for a hook whose endpoint \<^verbatim>\<open>url.Parse\<close> rejects (\<^verbatim>\<open>http://[::1\<close>, a host with
  no closing bracket, is one): building the URL returns the error.
\<close>

definition bad_url_env :: "(error + string, nat, 'x DatadogHook_scheme) env" where
  "bad_url_env =
     \<lparr>Format = (\<lambda>entry. entry),
      buildUrl = (\<lambda>h. Inl (ErrUrl (DatadogEndpoint h @ basePath))),
      NewRequest = (\<lambda>m u b. Inr \<lparr>req_method = m, req_url = u, req_header = [], req_body = b\<rparr>),
      Do = (\<lambda>req n. (Response 200, n + 1))\<rparr>"

text \<open>The request the sample collaborators build for a body, headers set.\<close>

definition sample_request :: "string \<Rightarrow> request" where
  "sample_request body =
     \<lparr>req_method = ''POST'', req_url = ''https://http-intake.logs.datadoghq.com/v1/input'',
      req_header = [(''DD-API-KEY'', ''apikey''), (''Content-Type'', ''application/json'')],
      req_body = body\<rparr>"

definition sample_hook :: "int \<Rightarrow> bool \<Rightarrow> DatadogHook" where
  "sample_hook maxRetry batching =
     \<lparr>ApiKey = ''apikey'', MinLevel = InfoLevel, MaxRetry = maxRetry,
      Service = ''unknown'', Hostname = ''unknown'', Source = ''golang'',
      Tags = None, ClientBatchingEnabled = batching, DatadogEndpoint = DatadogHostUS\<rparr>"

text \<open>A line of \<open>n\<close> bytes.\<close>

definition line_of :: "nat \<Rightarrow> string" where
  "line_of n = replicate n (CHR ''a'')"

text \<open>
  The limits a batch is held to: the total of its lines' sizes below the maximum
  content size, at most the maximum number of lines, no line above the maximum line
  size. \<open>acc_inv\<close> is the accumulator's invariant: \<open>size_b\<close> is the total of the
  buffered lines' sizes, and the buffered batch and every batch handed to \<open>send\<close> so
  far are within the limits.
\<close>

definition within_limits :: "string list \<Rightarrow> bool" where
  "within_limits b =
     (content_size b < maxContentSize \<and> length b \<le> maxLogCount \<and>
      list_all (\<lambda>l. length l \<le> maxLogSize) b)"

definition acc_inv :: "'n state \<Rightarrow> bool" where
  "acc_inv s =
     (size_b s = content_size (batch s) \<and> within_limits (batch s) \<and>
      list_all within_limits (handed s))"

text \<open>
  The goroutines of a hook between construction and \<open>Close\<close>: the second one is in its
  loop, the intake channel is open, and the wait group counts the goroutines that have
  not called \<^verbatim>\<open>Done\<close> (in \<^verbatim>\<open>datadog/datadog.go\<close> an intake goroutine that returned early
  never calls it).
\<close>

definition running :: "'n state \<Rightarrow> bool" where
  "running s = (ticker_alive s \<and> \<not> entryC_closed s \<and> wg s = (if intake_alive s then 2 else 1))"

definition runningEnv :: "'n state \<Rightarrow> bool" where
  "runningEnv s = (ticker_alive s \<and> \<not> entryC_closed s \<and> wg s = 2)"

text \<open>
  For concrete runs of \<open>NewEnv\<close>: a parser for plain decimal numerals (an optional sign,
  digits without a leading zero, within 32 bits). On the strings it accepts it gives
  what \<^verbatim>\<open>strconv.ParseInt(s, 0, 32)\<close> gives; that function accepts more (base prefixes,
  a leading zero for octal, underscores). \<open>test_getenv\<close> is the environment of
  \<^verbatim>\<open>TestNewShouldSetMaxRetriesToDefaultIfInvalid\<close>, and \<open>sample_hookEnv\<close> the hook that
  \<open>NewEnv\<close> builds from an empty environment and the key \<^verbatim>\<open>apikey\<close>.
\<close>

fun digits_value :: "string \<Rightarrow> nat \<Rightarrow> nat option" where
  "digits_value [] acc = Some acc"
| "digits_value (c # cs) acc =
     (let d = (of_char c :: nat)
      in if 48 \<le> d \<and> d \<le> 57 then digits_value cs (10 * acc + (d - 48)) else None)"

definition decimalParseInt :: "string \<Rightarrow> error + int" where
  "decimalParseInt s =
     (case s of
        [] \<Rightarrow> Inl (ErrParseInt s)
      | c # cs \<Rightarrow>
          let neg = (c = CHR ''-'');
              ds = (if c = CHR ''+'' \<or> c = CHR ''-'' then cs else s)
          in if ds = [] \<or> (1 < length ds \<and> take 1 ds = ''0'') then Inl (ErrParseInt s)
             else
               case digits_value ds 0 of
                 None \<Rightarrow> Inl (ErrParseInt s)
               | Some v \<Rightarrow>
                   let n = (if neg then - int v else int v)
                   in if n < - 2147483648 \<or> 2147483647 < n then Inl (ErrParseInt s) else Inr n)"

definition test_getenv :: "string \<Rightarrow> string" where
  "test_getenv key = (if key = ''DATADOG_MAX_RETRIES'' then ''INVALID VALUE!!!'' else [])"

definition sample_hookEnv :: DatadogHookEnv where
  "sample_hookEnv =
     \<lparr>ApiKey = ''apikey'', MinLevel = InfoLevel, MaxRetry = 5,
      TagsEnv = \<lparr>tag_Service = ''unknown'', tag_Environment = ''unknown'',
                 tag_Maintainer = ''unknown'', tag_Application = ''unknown'',
                 tag_Hostname = ''0.0.0.0''\<rparr>,
      datadogEndpoint = DatadogHostUS\<rparr>"


section \<open>Theorems\<close>

text \<open>The definitions a concrete run of the Sender unfolds.\<close>

lemmas sample_defs = sample_env_def sample_hook_def start_def frame_def failed_def report_def
  headers_def apiKeyHeader_def DatadogHostUS_def basePath_def send_def

subsection \<open>The Sender\<close>

lemma frame_example: "frame [''a'', ''bc''] = ''[a,bc]''"
  by (simp add: frame_def)

lemma frame_single: "frame [line] = ''['' @ line @ '']''"
  by (simp add: frame_def)

text \<open>The loop is unfolded one pass at a time, by the three lemmas that follow.\<close>

declare retry.simps [simp del]

lemma allowed_step:
  "\<not> (MaxRetry h < 0 \<or> MaxRetry h \<le> i + 1) \<Longrightarrow> allowed h i = Suc (allowed h (i + 1))"
  by (auto simp: allowed_def)

lemma allowed_stop:
  "MaxRetry h < 0 \<or> MaxRetry h \<le> i + 1 \<Longrightarrow> allowed h i = Suc 0"
  by (auto simp: allowed_def)

lemma allowed_zero: "allowed h 0 = nat (max 1 (MaxRetry h))"
  by (auto simp: allowed_def)

lemma retry_stop:
  "Do E req (net s) = (resp, n') \<Longrightarrow> failed resp \<Longrightarrow> MaxRetry h < 0 \<or> MaxRetry h \<le> i + 1 \<Longrightarrow>
   retry E h req i s =
     report (ErrFailedToSend (MaxRetry h)) (s\<lparr>net := n', requests := requests s @ [req]\<rparr>)"
  by (subst retry.simps) simp

lemma retry_again:
  "Do E req (net s) = (resp, n') \<Longrightarrow> failed resp \<Longrightarrow> \<not> (MaxRetry h < 0 \<or> MaxRetry h \<le> i + 1) \<Longrightarrow>
   retry E h req i s = retry E h req (i + 1) (s\<lparr>net := n', requests := requests s @ [req]\<rparr>)"
  by (subst retry.simps) simp

lemma retry_ok:
  "Do E req (net s) = (resp, n') \<Longrightarrow> \<not> failed resp \<Longrightarrow>
   retry E h req i s = s\<lparr>net := n', requests := requests s @ [req]\<rparr>"
  by (subst retry.simps) simp

lemma retry_frame:
  "\<exists>n rq rp. retry E h req i s = s\<lparr>requests := rq, reported := rp, net := n\<rparr>"
proof (induction E h req i s rule: retry.induct)
  case (1 E h req i s)
  obtain resp n' where d: "Do E req (net s) = (resp, n')"
    by (cases "Do E req (net s)")
  let ?s' = "s\<lparr>net := n', requests := requests s @ [req]\<rparr>"
  consider (ok) "\<not> failed resp"
    | (stop) "failed resp" "MaxRetry h < 0 \<or> MaxRetry h \<le> i + 1"
    | (again) "failed resp" "\<not> (MaxRetry h < 0 \<or> MaxRetry h \<le> i + 1)"
    by blast
  then show ?case
  proof cases
    case ok
    have "retry E h req i s = s\<lparr>requests := requests s @ [req], reported := reported s, net := n'\<rparr>"
      using retry_ok [OF d ok] by simp
    then show ?thesis by blast
  next
    case stop
    have "retry E h req i s =
        s\<lparr>requests := requests s @ [req], reported := reported s @ [ErrFailedToSend (MaxRetry h)], net := n'\<rparr>"
      using retry_stop [OF d stop] by (simp add: report_def)
    then show ?thesis by blast
  next
    case again
    from "1.IH" [OF d [symmetric] refl again(1) again(2)]
    obtain n rq rp where "retry E h req (i + 1) ?s' = ?s'\<lparr>requests := rq, reported := rp, net := n\<rparr>"
      by blast
    then have "retry E h req i s = s\<lparr>requests := rq, reported := rp, net := n\<rparr>"
      using retry_again [OF d again] by simp
    then show ?thesis by blast
  qed
qed

lemma retry_reported:
  "reported (retry E h req i s) =
     (if first_fails E req (net s) (allowed h i)
      then reported s @ [ErrFailedToSend (MaxRetry h)] else reported s)"
proof (induction E h req i s rule: retry.induct)
  case (1 E h req i s)
  obtain resp n' where d: "Do E req (net s) = (resp, n')"
    by (cases "Do E req (net s)")
  let ?s' = "s\<lparr>net := n', requests := requests s @ [req]\<rparr>"
  consider (ok) "\<not> failed resp"
    | (stop) "failed resp" "MaxRetry h < 0 \<or> MaxRetry h \<le> i + 1"
    | (again) "failed resp" "\<not> (MaxRetry h < 0 \<or> MaxRetry h \<le> i + 1)"
    by blast
  then show ?case
  proof cases
    case ok
    have "\<not> first_fails E req (net s) (allowed h i)"
      using ok d by (cases "allowed h i") (auto simp: allowed_def split: if_splits)
    then show ?thesis using retry_ok [OF d ok] by simp
  next
    case stop
    then show ?thesis using retry_stop [OF d stop] d by (simp add: allowed_stop report_def)
  next
    case again
    show ?thesis
      using "1.IH" [OF d [symmetric] refl again(1) again(2)] retry_again [OF d again] d again(1)
      by (simp add: allowed_step [OF again(2)])
  qed
qed

lemma retry_requests:
  "\<exists>k. 1 \<le> k \<and> k \<le> allowed h i \<and> requests (retry E h req i s) = requests s @ replicate k req
     \<and> (first_fails E req (net s) (allowed h i) \<longrightarrow> k = allowed h i)"
proof (induction E h req i s rule: retry.induct)
  case (1 E h req i s)
  obtain resp n' where d: "Do E req (net s) = (resp, n')"
    by (cases "Do E req (net s)")
  let ?s' = "s\<lparr>net := n', requests := requests s @ [req]\<rparr>"
  consider (ok) "\<not> failed resp"
    | (stop) "failed resp" "MaxRetry h < 0 \<or> MaxRetry h \<le> i + 1"
    | (again) "failed resp" "\<not> (MaxRetry h < 0 \<or> MaxRetry h \<le> i + 1)"
    by blast
  then show ?case
  proof cases
    case ok
    have nf: "\<not> first_fails E req (net s) (allowed h i)"
      using ok d by (cases "allowed h i") (auto simp: allowed_def split: if_splits)
    have "1 \<le> allowed h i" by (auto simp: allowed_def)
    then show ?thesis using retry_ok [OF d ok] nf
      by (intro exI [of _ 1]) simp
  next
    case stop
    show ?thesis using retry_stop [OF d stop]
      by (intro exI [of _ 1]) (simp add: allowed_stop [OF stop(2)] report_def)
  next
    case again
    from "1.IH" [OF d [symmetric] refl again(1) again(2)]
    obtain k where k: "1 \<le> k" "k \<le> allowed h (i + 1)"
      "requests (retry E h req (i + 1) ?s') = requests ?s' @ replicate k req"
      "first_fails E req (net ?s') (allowed h (i + 1)) \<longrightarrow> k = allowed h (i + 1)"
      by blast
    show ?thesis
      using k retry_again [OF d again] d
      by (intro exI [of _ "Suc k"]) (simp add: allowed_step [OF again(2)] replicate_app_Cons_same)
  qed
qed

lemma frame_from_length: "length buf + length ls \<le> length (frame_from n i ls buf)"
proof (induction ls arbitrary: i buf)
  case Nil
  then show ?case by simp
next
  case (Cons line ls)
  show ?case
    using Cons [of "(if i = 0 then buf @ ''['' else buf) @ line @ '']''" "Suc i"]
      Cons [of "(if i = 0 then buf @ ''['' else buf) @ line @ '',''" "Suc i"]
    by (auto simp: Let_def)
qed

lemma frame_nonempty: "b \<noteq> [] \<Longrightarrow> frame b \<noteq> []"
  using frame_from_length [of "[]" b "length b" 0] by (cases b) (auto simp: frame_def)

text \<open>
  The payload is longer than the lines it frames by one byte for each line and one more: the
  brackets and the commas.
\<close>

lemma frame_from_size:
  "length (frame_from n i ls buf)
     = length buf + content_size ls + length ls + (if i = 0 \<and> ls \<noteq> [] then 1 else 0)"
  by (induction ls arbitrary: i buf) (simp_all add: content_size_def Let_def)

lemma frame_size: "b \<noteq> [] \<Longrightarrow> length (frame b) = content_size b + length b + 1"
  by (simp add: frame_def frame_from_size)

lemma send_retry:
  "ApiKey h \<noteq> [] \<Longrightarrow> b \<noteq> [] \<Longrightarrow> buildUrl E h = Inr url \<Longrightarrow>
   NewRequest E ''POST'' url (frame b) = Inr req0 \<Longrightarrow>
   send E h b s = retry E h (req0\<lparr>req_header := headers h\<rparr>) 0 (s\<lparr>handed := handed s @ [b]\<rparr>)"
  using frame_nonempty [of b] by (simp add: send_def Let_def)

lemma send_frame:
  "\<exists>n rq rp. send E h b s = s\<lparr>handed := handed s @ [b], requests := rq, reported := rp, net := n\<rparr>"
proof -
  let ?s = "s\<lparr>handed := handed s @ [b]\<rparr>"
  have a: "\<exists>n rq rp. ?s = s\<lparr>handed := handed s @ [b], requests := rq, reported := rp, net := n\<rparr>"
    by (intro exI [of _ "net s"] exI [of _ "requests s"] exI [of _ "reported s"]) simp
  have b: "\<exists>n rq rp. report err ?s = s\<lparr>handed := handed s @ [b], requests := rq, reported := rp, net := n\<rparr>" for err
    by (intro exI [of _ "net s"] exI [of _ "requests s"] exI [of _ "reported s @ [err]"]) (simp add: report_def)
  have c: "\<exists>n rq rp. retry E h req 0 ?s = s\<lparr>handed := handed s @ [b], requests := rq, reported := rp, net := n\<rparr>" for req
    using retry_frame [of E h req 0 ?s] by auto
  show ?thesis
    unfolding send_def Let_def using a b c
    by (auto split: sum.splits simp del: not_None_eq)
qed

lemma all_fail_first_fails:
  "\<forall>r n. failed (fst (Do E r n)) \<Longrightarrow> first_fails E req n k"
  by (induction k arbitrary: n) auto

text \<open>
  The loop stops at the first attempt that succeeds: when the first \<open>k\<close> attempts fail
  and the next one does not, \<open>k + 1\<close> requests are made and nothing is reported.
\<close>

lemma retry_first_success:
  "k < allowed h i \<Longrightarrow> first_fails E req (net s) k \<Longrightarrow>
   \<not> failed (fst (Do E req (net_after E req (net s) k))) \<Longrightarrow>
   retry E h req i s =
     s\<lparr>net := net_after E req (net s) (Suc k), requests := requests s @ replicate (Suc k) req\<rparr>"
proof (induction k arbitrary: i s)
  case 0
  obtain resp n' where d: "Do E req (net s) = (resp, n')"
    by (cases "Do E req (net s)")
  with 0 show ?case
    using retry_ok [of E req s resp n' h i] by simp
next
  case (Suc k)
  obtain resp n' where d: "Do E req (net s) = (resp, n')"
    by (cases "Do E req (net s)")
  let ?s' = "s\<lparr>net := n', requests := requests s @ [req]\<rparr>"
  have f: "failed resp" and ff: "first_fails E req (net ?s') k"
    using Suc.prems(2) d by simp_all
  have go: "\<not> (MaxRetry h < 0 \<or> MaxRetry h \<le> i + 1)"
    using Suc.prems(1) by (auto simp: allowed_def split: if_splits)
  have lt: "k < allowed h (i + 1)"
    using Suc.prems(1) allowed_step [OF go] by simp
  have ok: "\<not> failed (fst (Do E req (net_after E req (net ?s') k)))"
    using Suc.prems(3) d by simp
  have "retry E h req (i + 1) ?s' =
     ?s'\<lparr>net := net_after E req (net ?s') (Suc k), requests := requests ?s' @ replicate (Suc k) req\<rparr>"
    using lt ff ok by (rule Suc.IH)
  then show ?case
    using retry_again [OF d f go] d by (simp add: replicate_app_Cons_same)
qed

lemma first_success_exists:
  "\<not> first_fails E req n m \<Longrightarrow>
   \<exists>k<m. first_fails E req n k \<and> \<not> failed (fst (Do E req (net_after E req n k)))"
proof (induction m arbitrary: n)
  case 0
  then show ?case by simp
next
  case (Suc m)
  show ?case
  proof (cases "failed (fst (Do E req n))")
    case False
    then show ?thesis by (intro exI [of _ 0]) simp
  next
    case True
    with Suc.prems have "\<not> first_fails E req (snd (Do E req n)) m" by simp
    from Suc.IH [OF this] obtain k where "k < m"
      "first_fails E req (snd (Do E req n)) k"
      "\<not> failed (fst (Do E req (net_after E req (snd (Do E req n)) k)))"
      by blast
    with True show ?thesis by (intro exI [of _ "Suc k"]) simp
  qed
qed

text \<open>
  \<^bold>\<open>C1\<close> (as amended). For every batch that reaches the retry loop (a non-empty batch, an API
  key, a URL and a request that could be built): a terminal delivery failure is reported
  exactly when the first \<open>max 1 MaxRetry\<close> attempts all fail, and then exactly that many
  attempts were made. Otherwise nothing is reported and the cycle ends with the first
  attempt that succeeds: the attempts made are the failed ones before it and that one,
  and the transport is left as that attempt left it. A negative \<open>MaxRetry\<close> never
  retries: one attempt is made, whatever its result.
\<close>

theorem send_terminal_failure_iff:
  assumes "ApiKey h \<noteq> []" and "b \<noteq> []"
    and "buildUrl E h = Inr url" and "NewRequest E ''POST'' url (frame b) = Inr req0"
  shows "(if first_fails E (req0\<lparr>req_header := headers h\<rparr>) (net s) (nat (max 1 (MaxRetry h)))
      then reported (send E h b s) = reported s @ [ErrFailedToSend (MaxRetry h)] \<and>
           requests (send E h b s)
             = requests s @ replicate (nat (max 1 (MaxRetry h))) (req0\<lparr>req_header := headers h\<rparr>)
      else reported (send E h b s) = reported s \<and>
           (\<exists>k < nat (max 1 (MaxRetry h)).
              first_fails E (req0\<lparr>req_header := headers h\<rparr>) (net s) k \<and>
              \<not> failed (fst (Do E (req0\<lparr>req_header := headers h\<rparr>)
                    (net_after E (req0\<lparr>req_header := headers h\<rparr>) (net s) k))) \<and>
              requests (send E h b s)
                = requests s @ replicate (Suc k) (req0\<lparr>req_header := headers h\<rparr>) \<and>
              net (send E h b s) = net_after E (req0\<lparr>req_header := headers h\<rparr>) (net s) (Suc k))) \<and>
    (MaxRetry h < 0 \<longrightarrow> requests (send E h b s) = requests s @ [req0\<lparr>req_header := headers h\<rparr>])"
proof -
  let ?req = "req0\<lparr>req_header := headers h\<rparr>"
  let ?s = "s\<lparr>handed := handed s @ [b]\<rparr>"
  let ?m = "nat (max 1 (MaxRetry h))"
  have eq: "send E h b s = retry E h ?req 0 ?s"
    using assms by (rule send_retry)
  obtain k where k: "1 \<le> k" "k \<le> ?m" "requests (retry E h ?req 0 ?s) = requests ?s @ replicate k ?req"
    "first_fails E ?req (net ?s) ?m \<longrightarrow> k = ?m"
    using retry_requests [of h 0 E ?req ?s] by (auto simp: allowed_zero)
  have rep: "reported (retry E h ?req 0 ?s) =
      (if first_fails E ?req (net s) ?m then reported s @ [ErrFailedToSend (MaxRetry h)] else reported s)"
    using retry_reported [of E h ?req 0 ?s] by (simp add: allowed_zero)
  have neg: "requests (send E h b s) = requests s @ [?req]" if "MaxRetry h < 0"
  proof -
    from that have "?m = 1" by simp
    with k(1,2) have "k = 1" by simp
    with k(3) eq show ?thesis by simp
  qed
  show ?thesis
  proof (cases "first_fails E ?req (net s) ?m")
    case True
    then have "k = ?m" using k(4) by simp
    then show ?thesis using True rep k(3) eq neg by simp
  next
    case False
    from first_success_exists [OF False] obtain j where j: "j < ?m"
      "first_fails E ?req (net s) j" "\<not> failed (fst (Do E ?req (net_after E ?req (net s) j)))"
      by blast
    have "retry E h ?req 0 ?s =
       ?s\<lparr>net := net_after E ?req (net ?s) (Suc j), requests := requests ?s @ replicate (Suc j) ?req\<rparr>"
      using j by (intro retry_first_success) (simp_all add: allowed_zero)
    then have "requests (send E h b s) = requests s @ replicate (Suc j) ?req \<and>
        net (send E h b s) = net_after E ?req (net s) (Suc j)"
      using eq by simp
    with j have "\<exists>k < ?m. first_fails E ?req (net s) k \<and>
        \<not> failed (fst (Do E ?req (net_after E ?req (net s) k))) \<and>
        requests (send E h b s) = requests s @ replicate (Suc k) ?req \<and>
        net (send E h b s) = net_after E ?req (net s) (Suc k)"
      by blast
    then show ?thesis using False rep eq neg by simp
  qed
qed

text \<open>The flaky transport, in closed form.\<close>

lemma flaky_net_after: "net_after (flaky_env c) req n k = n + k"
  by (induction k arbitrary: n) (simp_all add: flaky_env_def)

lemma flaky_first_fails: "first_fails (flaky_env c) req n k = (k = 0 \<or> n + k \<le> c)"
  by (induction k arbitrary: n) (auto simp: flaky_env_def failed_def)

lemma flaky_failed: "failed (fst (Do (flaky_env c) req n)) = (n < c)"
  by (simp add: flaky_env_def failed_def)

theorem send_terminal_failure_iff_witness:
  "reported (send (flaky_env 1) (sample_hook 5 True) [''{}''] (start True [] 0)) = [] \<and>
   requests (send (flaky_env 1) (sample_hook 5 True) [''{}''] (start True [] 0))
     = replicate 2 (sample_request ''[{}]'') \<and>
   reported (send (flaky_env 2) (sample_hook 2 True) [''{}''] (start True [] 0)) = [ErrFailedToSend 2] \<and>
   requests (send (flaky_env 2) (sample_hook 2 True) [''{}''] (start True [] 0))
     = replicate 2 (sample_request ''[{}]'')"
proof -
  let ?url = "''https://http-intake.logs.datadoghq.com/v1/input''"
  let ?req0 = "\<lparr>req_method = ''POST'', req_url = ?url, req_header = [], req_body = ''[{}]''\<rparr>"
  have hd: "?req0\<lparr>req_header := headers (sample_hook m True)\<rparr> = sample_request ''[{}]''" for m
    by (simp add: sample_request_def headers_def apiKeyHeader_def sample_hook_def)
  have pre: "ApiKey (sample_hook m True) \<noteq> [] \<and>
      buildUrl (flaky_env c) (sample_hook m True) = Inr ?url \<and>
      NewRequest (flaky_env c) ''POST'' ?url (frame [''{}'']) = Inr ?req0" for m c
    by (simp add: flaky_env_def sample_hook_def DatadogHostUS_def basePath_def frame_def)
  have z: "net (start True [] (0::nat)) = 0" "requests (start True [] (0::nat)) = []"
    "reported (start True [] (0::nat)) = []"
    by (simp_all add: start_def)
  note t1 = send_terminal_failure_iff [where h = "sample_hook 5 True" and b = "[''{}'']"
      and E = "flaky_env 1" and url = ?url and ?req0.0 = ?req0 and s = "start True [] 0",
      unfolded hd z flaky_first_fails flaky_net_after flaky_failed]
  note t2 = send_terminal_failure_iff [where h = "sample_hook 2 True" and b = "[''{}'']"
      and E = "flaky_env 2" and url = ?url and ?req0.0 = ?req0 and s = "start True [] 0",
      unfolded hd z flaky_first_fails flaky_net_after flaky_failed]
  have a: "reported (send (flaky_env 1) (sample_hook 5 True) [''{}''] (start True [] 0)) = [] \<and>
     requests (send (flaky_env 1) (sample_hook 5 True) [''{}''] (start True [] 0))
       = replicate 2 (sample_request ''[{}]'')"
  proof -
    from t1 pre [of 5 1]
    have r: "reported (send (flaky_env 1) (sample_hook 5 True) [''{}''] (start True [] 0)) = []"
      and "\<exists>k<5. (k = 0 \<or> k \<le> 1) \<and> \<not> k < 1 \<and>
        requests (send (flaky_env 1) (sample_hook 5 True) [''{}''] (start True [] 0))
          = replicate (Suc k) (sample_request ''[{}]'')"
      by (auto simp: sample_hook_def)
    then obtain k where kk: "k = 0 \<or> k \<le> 1" "\<not> k < 1"
        "requests (send (flaky_env 1) (sample_hook 5 True) [''{}''] (start True [] 0))
          = replicate (Suc k) (sample_request ''[{}]'')"
      by blast
    from kk(1,2) have "k = 1" by arith
    with kk(3) have "requests (send (flaky_env 1) (sample_hook 5 True) [''{}''] (start True [] 0))
          = replicate (Suc 1) (sample_request ''[{}]'')"
      by simp
    with r show ?thesis by (simp add: numeral_2_eq_2)
  qed
  have b: "reported (send (flaky_env 2) (sample_hook 2 True) [''{}''] (start True [] 0)) = [ErrFailedToSend 2] \<and>
     requests (send (flaky_env 2) (sample_hook 2 True) [''{}''] (start True [] 0))
       = replicate 2 (sample_request ''[{}]'')"
    using t2 pre [of 2 2] by (auto simp: sample_hook_def)
  from a b show ?thesis by simp
qed

text \<open>
  The claim as stated fails for a negative \<open>MaxRetry\<close>: against a transport that always
  answers 500, \<open>send\<close> with \<open>MaxRetry = -1\<close> returns after one request and reports the
  terminal failure.
\<close>

theorem negative_MaxRetry_counterexample:
  "MaxRetry (sample_hook (- 1) True) < 0 \<and>
   requests (send (sample_env 500) (sample_hook (- 1) True) [''{}''] (start True [] 0))
     = [sample_request ''[{}]''] \<and>
   reported (send (sample_env 500) (sample_hook (- 1) True) [''{}''] (start True [] 0))
     = [ErrFailedToSend (- 1)]"
  by (simp add: sample_defs sample_request_def retry.simps)

text \<open>
  \<^bold>\<open>C6\<close> (as amended). When every attempt fails, a batch that reaches the retry loop is
  attempted exactly \<open>max 1 MaxRetry\<close> times, always with the same request; then the
  terminal failure is reported, and the batch is not put back into the accumulator.
  For \<open>MaxRetry = 5\<close> these are five attempts.
\<close>

theorem send_all_fail_attempts:
  assumes "ApiKey h \<noteq> []" and "b \<noteq> []"
    and "buildUrl E h = Inr url" and "NewRequest E ''POST'' url (frame b) = Inr req0"
    and "\<forall>r n. failed (fst (Do E r n))"
  shows "requests (send E h b s)
      = requests s @ replicate (nat (max 1 (MaxRetry h))) (req0\<lparr>req_header := headers h\<rparr>) \<and>
    reported (send E h b s) = reported s @ [ErrFailedToSend (MaxRetry h)] \<and>
    batch (send E h b s) = batch s"
proof -
  let ?req = "req0\<lparr>req_header := headers h\<rparr>"
  let ?s = "s\<lparr>handed := handed s @ [b]\<rparr>"
  have eq: "send E h b s = retry E h ?req 0 ?s"
    using assms(1-4) by (rule send_retry)
  have ff: "first_fails E ?req (net ?s) (allowed h 0)"
    using assms(5) by (rule all_fail_first_fails)
  obtain k where k: "requests (retry E h ?req 0 ?s) = requests ?s @ replicate k ?req"
    "first_fails E ?req (net ?s) (allowed h 0) \<longrightarrow> k = allowed h 0"
    using retry_requests [of h 0 E ?req ?s] by blast
  have rq: "requests (send E h b s) = requests s @ replicate (nat (max 1 (MaxRetry h))) ?req"
    using k ff eq by (simp add: allowed_zero)
  have rp: "reported (send E h b s) = reported s @ [ErrFailedToSend (MaxRetry h)]"
    using retry_reported [of E h ?req 0 ?s] ff eq by simp
  obtain n rq' rp' where "send E h b s = s\<lparr>handed := handed s @ [b], requests := rq', reported := rp', net := n\<rparr>"
    using send_frame [of E h b s] by blast
  then have "batch (send E h b s) = batch s" by simp
  with rq rp show ?thesis by simp
qed

theorem send_all_fail_attempts_witness:
  "requests (send (sample_env 500) (sample_hook 5 True) [''{}''] (start True [] 0))
     = replicate 5 (sample_request ''[{}]'') \<and>
   reported (send (sample_env 500) (sample_hook 5 True) [''{}''] (start True [] 0))
     = [ErrFailedToSend 5]"
proof -
  have "requests (send (sample_env 500) (sample_hook 5 True) [''{}''] (start True [] 0))
      = requests (start True [] (0::nat)) @ replicate (nat (max 1 5)) (sample_request ''[{}]'') \<and>
    reported (send (sample_env 500) (sample_hook 5 True) [''{}''] (start True [] 0))
      = reported (start True [] (0::nat)) @ [ErrFailedToSend 5]"
    using send_all_fail_attempts [of "sample_hook 5 True" "[''{}'']" "sample_env 500"
        "''https://http-intake.logs.datadoghq.com/v1/input''"
        "\<lparr>req_method = ''POST'', req_url = ''https://http-intake.logs.datadoghq.com/v1/input'',
          req_header = [], req_body = ''[{}]''\<rparr>" "start True [] 0"]
    by (simp add: sample_env_def sample_hook_def frame_def failed_def headers_def apiKeyHeader_def
        DatadogHostUS_def basePath_def sample_request_def start_def)
  then show ?thesis by (simp add: start_def)
qed

text \<open>
  The claim as stated fails for \<open>MaxRetry = 0\<close>: one attempt is made, not none.
\<close>

theorem zero_MaxRetry_counterexample:
  "MaxRetry (sample_hook 0 True) = 0 \<and>
   length (requests (send (sample_env 500) (sample_hook 0 True) [''{}''] (start True [] 0))) = 1 \<and>
   reported (send (sample_env 500) (sample_hook 0 True) [''{}''] (start True [] 0))
     = [ErrFailedToSend 0]"
  by (simp add: sample_defs sample_request_def retry.simps)

text \<open>
  \<^bold>\<open>C9\<close> (as amended). The retry loop makes at least one attempt from every counter and
  state, whatever \<open>MaxRetry\<close> is. For a non-empty batch and a non-empty API key, \<open>send\<close>
  reaches the loop once the URL and the request are built, and then makes at least one
  attempt; with \<open>MaxRetry = 0\<close> and a first attempt that fails, that attempt is the only
  one and the terminal failure is reported. When the URL or the request cannot be
  built, that error is reported and no attempt is made.
\<close>

theorem send_attempts_at_least_once:
  assumes "ApiKey h \<noteq> []" and "b \<noteq> []"
  shows "(\<forall>req i s'. length (requests s') < length (requests (retry E h req i s'))) \<and>
    (case buildUrl E h of
       Inl err \<Rightarrow> requests (send E h b s) = requests s \<and> reported (send E h b s) = reported s @ [err]
     | Inr url \<Rightarrow>
         (case NewRequest E ''POST'' url (frame b) of
            Inl err \<Rightarrow>
              requests (send E h b s) = requests s \<and> reported (send E h b s) = reported s @ [err]
          | Inr req0 \<Rightarrow>
              length (requests s) < length (requests (send E h b s)) \<and>
              (MaxRetry h = 0 \<and> failed (fst (Do E (req0\<lparr>req_header := headers h\<rparr>) (net s))) \<longrightarrow>
                 requests (send E h b s) = requests s @ [req0\<lparr>req_header := headers h\<rparr>] \<and>
                 reported (send E h b s) = reported s @ [ErrFailedToSend 0])))"
proof -
  have loop: "length (requests s') < length (requests (retry E h req i s'))" for req i s'
    using retry_requests [of h i E req s'] by auto
  have ne: "frame b \<noteq> []"
    using assms(2) by (rule frame_nonempty)
  have built: "length (requests s) < length (requests (send E h b s)) \<and>
      (MaxRetry h = 0 \<and> failed (fst (Do E (req0\<lparr>req_header := headers h\<rparr>) (net s))) \<longrightarrow>
         requests (send E h b s) = requests s @ [req0\<lparr>req_header := headers h\<rparr>] \<and>
         reported (send E h b s) = reported s @ [ErrFailedToSend 0])"
    if u: "buildUrl E h = Inr url" and r: "NewRequest E ''POST'' url (frame b) = Inr req0"
    for url req0
  proof -
    let ?req = "req0\<lparr>req_header := headers h\<rparr>"
    let ?s = "s\<lparr>handed := handed s @ [b]\<rparr>"
    have eq: "send E h b s = retry E h ?req 0 ?s"
      using assms u r by (rule send_retry)
    have more: "length (requests s) < length (requests (send E h b s))"
      using loop [of ?s ?req 0] eq by simp
    have zero: "requests (send E h b s) = requests s @ [?req] \<and>
         reported (send E h b s) = reported s @ [ErrFailedToSend 0]"
      if m: "MaxRetry h = 0" and f: "failed (fst (Do E ?req (net s)))"
    proof -
      have a: "allowed h 0 = 1" using m by (simp add: allowed_def)
      have ff: "first_fails E ?req (net ?s) (allowed h 0)" using f a by simp
      obtain k where "1 \<le> k" "k \<le> allowed h 0"
        "requests (retry E h ?req 0 ?s) = requests ?s @ replicate k ?req"
        using retry_requests [of h 0 E ?req ?s] by blast
      with a have "requests (retry E h ?req 0 ?s) = requests ?s @ [?req]"
        by (cases k) auto
      moreover have "reported (retry E h ?req 0 ?s) = reported ?s @ [ErrFailedToSend 0]"
        using retry_reported [of E h ?req 0 ?s] ff m by simp
      ultimately show ?thesis using eq by simp
    qed
    from more zero show ?thesis by blast
  qed
  have no_url: "requests (send E h b s) = requests s \<and> reported (send E h b s) = reported s @ [err]"
    if "buildUrl E h = Inl err" for err
    using that assms ne by (simp add: send_def Let_def report_def)
  have no_req: "requests (send E h b s) = requests s \<and> reported (send E h b s) = reported s @ [err]"
    if "buildUrl E h = Inr url" and "NewRequest E ''POST'' url (frame b) = Inl err" for url err
    using that assms ne by (simp add: send_def Let_def report_def)
  show ?thesis
    using loop built no_url no_req by (auto split: sum.splits)
qed

theorem send_attempts_at_least_once_witness:
  "requests (send (sample_env 503) (sample_hook 0 True) [''{}''] (start True [] 0))
     = [sample_request ''[{}]''] \<and>
   reported (send (sample_env 503) (sample_hook 0 True) [''{}''] (start True [] 0))
     = [ErrFailedToSend 0]"
proof -
  let ?E = "sample_env 503 :: (error + string, nat, DatadogHook) env"
  let ?h = "sample_hook 0 True"
  let ?url = "''https://http-intake.logs.datadoghq.com/v1/input''"
  let ?req0 = "\<lparr>req_method = ''POST'', req_url = ?url, req_header = [], req_body = ''[{}]''\<rparr>"
  have k: "ApiKey ?h \<noteq> []" and b: "[''{}''] \<noteq> ([] :: string list)"
    by (simp_all add: sample_hook_def)
  have u: "buildUrl ?E ?h = Inr ?url"
    by (simp add: sample_env_def sample_hook_def DatadogHostUS_def basePath_def)
  have r: "NewRequest ?E ''POST'' ?url (frame [''{}'']) = Inr ?req0"
    by (simp add: sample_env_def frame_def)
  have hd: "?req0\<lparr>req_header := headers ?h\<rparr> = sample_request ''[{}]''"
    by (simp add: sample_request_def headers_def apiKeyHeader_def sample_hook_def)
  have f: "MaxRetry ?h = 0 \<and> failed (fst (Do ?E (sample_request ''[{}]'') (net (start True [] (0::nat)))))"
    by (simp add: sample_env_def sample_hook_def failed_def)
  note t = send_attempts_at_least_once [OF k b, where E = ?E and s = "start True [] 0",
      THEN conjunct2, unfolded u r sum.case hd]
  from t f show ?thesis
    by (simp add: start_def)
qed

text \<open>
  The claim as stated fails where the URL cannot be built: a non-empty batch and a
  non-empty API key, and \<open>send\<close> reports the error of the URL and makes no attempt.
\<close>

theorem unbuildable_url_counterexample:
  "ApiKey (sample_hook 5 True\<lparr>DatadogEndpoint := ''http://[::1''\<rparr>) \<noteq> [] \<and>
   [''{}''] \<noteq> ([] :: string list) \<and>
   requests (send bad_url_env (sample_hook 5 True\<lparr>DatadogEndpoint := ''http://[::1''\<rparr>) [''{}'']
     (start True [] 0)) = [] \<and>
   reported (send bad_url_env (sample_hook 5 True\<lparr>DatadogEndpoint := ''http://[::1''\<rparr>) [''{}'']
     (start True [] 0)) = [ErrUrl ''http://[::1/v1/input'']"
  by (simp add: send_def bad_url_env_def sample_hook_def start_def frame_def report_def basePath_def)

subsection \<open>The accumulator\<close>

text \<open>\<open>send\<close> touches the transport, the requests and the reports, and records its argument.\<close>

lemma send_fields [simp]:
  "batch (send E h b s) = batch s"
  "size_b (send E h b s) = size_b s"
  "handed (send E h b s) = handed s @ [b]"
  "intake_alive (send E h b s) = intake_alive s"
  "ticker_alive (send E h b s) = ticker_alive s"
  "wg (send E h b s) = wg s"
  "entryC_closed (send E h b s) = entryC_closed s"
  "ticker_stopped (send E h b s) = ticker_stopped s"
proof -
  obtain n rq rp where
    "send E h b s = s\<lparr>handed := handed s @ [b], requests := rq, reported := rp, net := n\<rparr>"
    using send_frame [of E h b s] by blast
  then show "batch (send E h b s) = batch s"
    "size_b (send E h b s) = size_b s"
    "handed (send E h b s) = handed s @ [b]"
    "intake_alive (send E h b s) = intake_alive s"
    "ticker_alive (send E h b s) = ticker_alive s"
    "wg (send E h b s) = wg s"
    "entryC_closed (send E h b s) = entryC_closed s"
    "ticker_stopped (send E h b s) = ticker_stopped s"
    by simp_all
qed

lemma content_size_simps [simp]:
  "content_size [] = 0"
  "content_size (b @ [l]) = content_size b + length l"
  "content_size (l # b) = length l + content_size b"
  by (simp_all add: content_size_def)

lemma within_limits_Nil [simp]: "within_limits []"
  by (simp add: within_limits_def maxContentSize_def)

lemma within_limits_single: "length l \<le> maxLogSize \<Longrightarrow> within_limits [l]"
  by (simp add: within_limits_def maxContentSize_def maxLogSize_def maxLogCount_def)

lemma within_limits_snoc:
  "within_limits b \<Longrightarrow> content_size b + length l < maxContentSize \<Longrightarrow> length b \<noteq> maxLogCount \<Longrightarrow>
   length l \<le> maxLogSize \<Longrightarrow> within_limits (b @ [l])"
  by (simp add: within_limits_def)

lemma acc_inv_start: "acc_inv (start started logged n0)"
  by (simp add: acc_inv_def start_def)

text \<open>What a pass of the intake loop does to the accumulator, case by case.\<close>

lemma intake_format_error:
  "Format E entry = Inl err \<Longrightarrow>
   intake E h entry s = (report err s)\<lparr>intake_alive := False, wg := wg s - 1\<rparr>"
  by (simp add: intake_def)

lemma intake_handed:
  "Format E entry = Inr formatted \<Longrightarrow>
   handed (intake E h entry s) =
     (if maxContentSize \<le> size_b s + length formatted \<or> length (batch s) = maxLogCount
      then handed s @ [batch s] else handed s)"
  by (simp add: intake_def Let_def report_def)

lemma intake_batch:
  "Format E entry = Inr formatted \<Longrightarrow>
   batch (intake E h entry s) =
     (if maxContentSize \<le> size_b s + length formatted \<or> length (batch s) = maxLogCount
      then [] else batch s) @ (if maxLogSize < length formatted then [] else [formatted])"
  by (simp add: intake_def Let_def report_def)

lemma intake_size_b:
  "Format E entry = Inr formatted \<Longrightarrow>
   size_b (intake E h entry s) =
     (if maxContentSize \<le> size_b s + length formatted \<or> length (batch s) = maxLogCount
      then 0 else size_b s) + (if maxLogSize < length formatted then 0 else length formatted)"
  by (simp add: intake_def Let_def report_def)

lemma intake_alive_iff:
  "Format E entry = Inr formatted \<Longrightarrow>
   intake_alive (intake E h entry s) = (intake_alive s \<and> length formatted \<le> maxLogSize)"
  by (auto simp add: intake_def Let_def report_def)

lemma intake_inv: "acc_inv s \<Longrightarrow> acc_inv (intake E h entry s)"
proof (cases "Format E entry")
  case (Inl err)
  then show "acc_inv s \<Longrightarrow> ?thesis"
    by (simp add: intake_format_error acc_inv_def report_def)
next
  case (Inr formatted)
  assume inv: "acc_inv s"
  show ?thesis
    unfolding acc_inv_def intake_handed [OF Inr] intake_batch [OF Inr] intake_size_b [OF Inr]
    using inv
    by (auto simp: acc_inv_def within_limits_single within_limits_snoc
        intro!: within_limits_snoc)
qed

lemma tick_inv: "acc_inv s \<Longrightarrow> acc_inv (tick E h s)"
  by (simp add: acc_inv_def tick_def)

lemma on_done_inv: "acc_inv s \<Longrightarrow> acc_inv (on_done E h s)"
  by (simp add: acc_inv_def on_done_def Let_def)

lemma Close_inv: "acc_inv s \<Longrightarrow> acc_inv (final (Close E h s))"
  using on_done_inv [of "s\<lparr>entryC_closed := True, ticker_stopped := True\<rparr>" E h]
    on_done_inv [of "s\<lparr>entryC_closed := True, intake_alive := False, wg := wg s - 1, ticker_stopped := True\<rparr>" E h]
  by (auto simp: Close_def Let_def acc_inv_def)

lemma step_inv:
  "ClientBatchingEnabled h \<Longrightarrow> acc_inv s \<Longrightarrow> acc_inv (final (step E h ev s))"
  by (cases ev) (auto simp: step_def Fire_def intake_inv tick_inv Close_inv)

lemma run_inv:
  "ClientBatchingEnabled h \<Longrightarrow> acc_inv s \<Longrightarrow> acc_inv (final (run E h evs s))"
proof (induction evs arbitrary: s)
  case Nil
  then show ?case by simp
next
  case (Cons ev evs)
  from Cons.prems have "acc_inv (final (step E h ev s))"
    by (simp add: step_inv)
  with Cons show ?case
    by (cases "step E h ev s") auto
qed

lemma run_append:
  "run E h (xs @ ys) s =
     (case run E h xs s of Returns r s' \<Rightarrow> run E h ys s' | Blocks s' \<Rightarrow> Blocks s' | Panics s' \<Rightarrow> Panics s')"
proof (induction xs arbitrary: s)
  case Nil
  then show ?case by simp
next
  case (Cons x xs)
  then show ?case by (cases "step E h x s") simp_all
qed

lemma fires_accumulate:
  assumes "ClientBatchingEnabled h"
    and "intake_alive s" and "\<not> entryC_closed s"
    and "map (Format E) es = map Inr ls"
    and "list_all (\<lambda>l. length l \<le> maxLogSize) ls"
    and "size_b s + content_size ls < maxContentSize"
    and "length (batch s) + length ls \<le> maxLogCount"
  shows "run E h (map FireEv es) s
     = Returns () (s\<lparr>batch := batch s @ ls, size_b := size_b s + content_size ls\<rparr>)"
  using assms(2-)
proof (induction es arbitrary: ls s)
  case Nil
  then show ?case by simp
next
  case (Cons e es)
  from Cons.prems(3) obtain l ls' where ls: "ls = l # ls'" and f: "Format E e = Inr l"
    and fs: "map (Format E) es = map Inr ls'"
    by (cases ls) auto
  let ?s' = "s\<lparr>batch := batch s @ [l], size_b := size_b s + length l\<rparr>"
  have small: "length l \<le> maxLogSize" and rest: "list_all (\<lambda>l. length l \<le> maxLogSize) ls'"
    using Cons.prems(4) ls by simp_all
  have no_flush: "\<not> (maxContentSize \<le> size_b s + length l \<or> length (batch s) = maxLogCount)"
    using Cons.prems(5,6) ls by auto
  have i: "intake E h e s = ?s'"
    using f small no_flush by (simp add: intake_def Let_def)
  have st: "step E h (FireEv e) s = Returns () ?s'"
    using assms(1) Cons.prems(1,2) i by (simp add: step_def Fire_def)
  have "run E h (map FireEv es) ?s'
     = Returns () (?s'\<lparr>batch := batch ?s' @ ls', size_b := size_b ?s' + content_size ls'\<rparr>)"
    using Cons.prems(1,2,5,6) ls by (intro Cons.IH [OF _ _ fs rest]) simp_all
  then show ?case
    using st ls by simp
qed

lemma content_size_replicate: "content_size (replicate n l) = n * length l"
  by (induction n) simp_all

lemma length_line_of [simp]: "length (line_of n) = n"
  by (simp add: line_of_def)

lemma sample_Format [simp]: "Format (sample_env status) = (\<lambda>entry. entry)"
  by (simp add: sample_env_def)

lemma sample_batching [simp]: "ClientBatchingEnabled (sample_hook m b) = b"
  by (simp add: sample_hook_def)

text \<open>Nineteen lines of 256 kB each are buffered without a hand-off.\<close>

lemma nineteen_lines:
  "run (sample_env 200) (sample_hook 5 True) (map FireEv (replicate 19 (Inr (line_of 262144))))
     (start True [] 0)
   = Returns () ((start True [] 0)\<lparr>batch := replicate 19 (line_of 262144), size_b := 4980736\<rparr>)"
  using fires_accumulate [where h = "sample_hook 5 True" and s = "start True [] 0"
      and E = "sample_env 200" and es = "replicate 19 (Inr (line_of 262144))"
      and ls = "replicate 19 (line_of 262144)"]
  by (simp add: content_size_replicate maxLogSize_def maxContentSize_def maxLogCount_def start_def
      list_all_length)

text \<open>
  \<^bold>\<open>C7\<close> (as amended). Entries that all encode, to lines none of which is above the maximum
  line size, whose sizes sum below the maximum content size and whose number is below
  the maximum line count: fired at a new hook, they are all buffered, in the order of
  the calls, and nothing is handed to \<open>send\<close> before the next flush; the flush (a tick,
  or \<open>Close\<close>) hands over exactly one batch, holding all the lines in that order.
\<close>

theorem appends_below_thresholds_one_batch:
  assumes "ClientBatchingEnabled h"
    and "map (Format E) es = map Inr ls"
    and "list_all (\<lambda>l. length l \<le> maxLogSize) ls"
    and "content_size ls < maxContentSize"
    and "length ls < maxLogCount"
  shows "run E h (map FireEv es) (start True logged n0)
       = Returns () ((start True logged n0)\<lparr>batch := ls, size_b := content_size ls\<rparr>) \<and>
     handed (final (run E h (map FireEv es) (start True logged n0))) = [] \<and>
     handed (final (run E h (map FireEv es @ [TickEv]) (start True logged n0))) = [ls] \<and>
     handed (final (run E h (map FireEv es @ [CloseEv]) (start True logged n0))) = [ls]"
proof -
  let ?init = "start True logged n0"
  let ?s = "?init\<lparr>batch := ls, size_b := content_size ls\<rparr>"
  have r: "run E h (map FireEv es) ?init = Returns () ?s"
    using fires_accumulate [where h = h and s = ?init and E = E and es = es and ls = ls] assms
    by (simp add: start_def)
  have t: "handed (final (run E h (map FireEv es @ [TickEv]) ?init)) = [ls]"
    unfolding run_append r by (simp add: step_def tick_def start_def)
  have c: "handed (final (run E h (map FireEv es @ [CloseEv]) ?init)) = [ls]"
    unfolding run_append r by (simp add: step_def Close_def on_done_def Let_def start_def)
  have n: "handed (final (run E h (map FireEv es) ?init)) = []"
    unfolding r by (simp add: start_def)
  from r n t c show ?thesis by simp
qed

theorem appends_below_thresholds_one_batch_witness:
  "handed (final (run (sample_env 200) (sample_hook 5 True)
      [FireEv (Inr ''{1}''), FireEv (Inr ''{2}''), FireEv (Inr ''{3}''), TickEv] (start True [] 0)))
    = [[''{1}'', ''{2}'', ''{3}'']]"
  using appends_below_thresholds_one_batch [where h = "sample_hook 5 True" and E = "sample_env 200"
      and es = "[Inr ''{1}'', Inr ''{2}'', Inr ''{3}'']" and ls = "[''{1}'', ''{2}'', ''{3}'']"
      and logged = "[]" and ?n0.0 = 0]
  by (simp add: maxLogSize_def maxContentSize_def maxLogCount_def)

text \<open>
  The claim as stated fails for a line above the maximum line size: one line of
  262145 bytes is below the content size and the line count, and it is not buffered;
  the next flush hands over an empty batch.
\<close>

theorem oversize_line_counterexample_C7:
  "length (line_of 262145) < maxContentSize \<and> length [line_of 262145] < maxLogCount \<and>
   batch (final (run (sample_env 200) (sample_hook 5 True) [FireEv (Inr (line_of 262145))]
     (start True [] 0))) = [] \<and>
   handed (final (run (sample_env 200) (sample_hook 5 True) [FireEv (Inr (line_of 262145)), TickEv]
     (start True [] 0))) = [[]]"
  by (simp add: step_def Fire_def intake_def tick_def start_def Let_def report_def
      maxLogSize_def maxContentSize_def maxLogCount_def)

text \<open>
  \<^bold>\<open>C5\<close> (as amended). In every state a hook with batching reaches, \<open>size_b\<close> is the
  total size of the buffered lines, and the pass of the intake loop for a line hands the
  buffered batch to \<open>send\<close> exactly when the buffered size plus the line's size reaches
  or exceeds the maximum content size, or the batch already holds the maximum number
  of lines; every batch handed over has a total size below the maximum content size and
  at most the maximum number of lines.
\<close>

theorem intake_hands_off_at_threshold:
  assumes "ClientBatchingEnabled h"
    and "s = final (run E h evs (start True logged n0))"
    and "Format E entry = Inr formatted"
  shows "size_b s = content_size (batch s) \<and>
    handed (intake E h entry s) =
      (if maxContentSize \<le> content_size (batch s) + length formatted \<or> length (batch s) = maxLogCount
       then handed s @ [batch s] else handed s) \<and>
    list_all (\<lambda>b. content_size b < maxContentSize \<and> length b \<le> maxLogCount)
      (handed (intake E h entry s))"
proof -
  have inv: "acc_inv s"
    using assms(1,2) run_inv [OF assms(1) acc_inv_start] by simp
  then have sz: "size_b s = content_size (batch s)"
    by (simp add: acc_inv_def)
  have "acc_inv (intake E h entry s)"
    using inv by (rule intake_inv)
  then have "list_all within_limits (handed (intake E h entry s))"
    by (simp add: acc_inv_def)
  then have lim: "list_all (\<lambda>b. content_size b < maxContentSize \<and> length b \<le> maxLogCount)
      (handed (intake E h entry s))"
    by (rule list.pred_mono_strong) (simp add: within_limits_def)
  show ?thesis
    using sz lim intake_handed [OF assms(3), of h s] by simp
qed

theorem intake_hands_off_at_threshold_witness:
  "handed (intake (sample_env 200) (sample_hook 5 True) (Inr (line_of 262144))
     (final (run (sample_env 200) (sample_hook 5 True)
        (map FireEv (replicate 19 (Inr (line_of 262144)))) (start True [] 0))))
   = [replicate 19 (line_of 262144)]"
  using intake_hands_off_at_threshold [where h = "sample_hook 5 True" and E = "sample_env 200"
      and evs = "map FireEv (replicate 19 (Inr (line_of 262144)))" and logged = "[]" and ?n0.0 = 0
      and entry = "Inr (line_of 262144)" and formatted = "line_of 262144", OF _ refl]
  unfolding nineteen_lines
  by (simp add: content_size_replicate maxContentSize_def start_def)

text \<open>
  The claim as stated fails where the sizes add up to the maximum exactly: nineteen
  buffered lines of 256 kB and a twentieth make 5 MB, which does not exceed the maximum
  content size, and the nineteen are handed over when the twentieth arrives.
\<close>

theorem flush_at_equality_counterexample:
  "content_size (replicate 19 (line_of 262144)) + length (line_of 262144) \<le> maxContentSize \<and>
   length (replicate 19 (line_of 262144)) < maxLogCount \<and>
   batch (final (run (sample_env 200) (sample_hook 5 True)
      (map FireEv (replicate 19 (Inr (line_of 262144)))) (start True [] 0)))
     = replicate 19 (line_of 262144) \<and>
   handed (final (run (sample_env 200) (sample_hook 5 True)
      (map FireEv (replicate 19 (Inr (line_of 262144)) @ [Inr (line_of 262144)])) (start True [] 0)))
     = [replicate 19 (line_of 262144)]"
  unfolding map_append run_append nineteen_lines
  by (simp add: content_size_replicate maxContentSize_def maxLogCount_def maxLogSize_def
      step_def Fire_def intake_def Let_def start_def)

text \<open>
  \<^bold>\<open>C2\<close> (as amended). In every state a hook with batching reaches, no batch handed to
  \<open>send\<close> and no buffered batch holds a line above the maximum line size. The pass of
  the intake loop for such a line reports the error and does not buffer the line: the
  lines handed over or buffered are the same as before, in the same order. The buffered
  batch stays as it is unless the line's size reaches the content threshold or the
  batch is full; then the batch is handed to \<open>send\<close> whole and an empty one replaces it.
\<close>

theorem oversize_line_dropped:
  assumes "ClientBatchingEnabled h"
    and "s = final (run E h evs (start True logged n0))"
  shows "list_all (list_all (\<lambda>l. length l \<le> maxLogSize)) (handed s @ [batch s]) \<and>
    (\<forall>entry formatted. Format E entry = Inr formatted \<and> maxLogSize < length formatted \<longrightarrow>
       (\<exists>rp. reported (intake E h entry s) = rp @ [ErrTooLarge maxLogSize (length formatted)]) \<and>
       concat (handed (intake E h entry s)) @ batch (intake E h entry s)
         = concat (handed s) @ batch s \<and>
       (if maxContentSize \<le> size_b s + length formatted \<or> length (batch s) = maxLogCount
        then handed (intake E h entry s) = handed s @ [batch s] \<and> batch (intake E h entry s) = []
        else handed (intake E h entry s) = handed s \<and> batch (intake E h entry s) = batch s))"
proof -
  have inv: "acc_inv s"
    using assms(2) run_inv [OF assms(1) acc_inv_start] by simp
  have a: "list_all (list_all (\<lambda>l. length l \<le> maxLogSize)) (handed s @ [batch s])"
  proof -
    have "list_all within_limits (handed s @ [batch s])"
      using inv by (simp add: acc_inv_def)
    then show ?thesis
      by (rule list.pred_mono_strong) (simp add: within_limits_def)
  qed
  have b: "(\<exists>rp. reported (intake E h entry s) = rp @ [ErrTooLarge maxLogSize (length formatted)]) \<and>
       concat (handed (intake E h entry s)) @ batch (intake E h entry s)
         = concat (handed s) @ batch s \<and>
       (if maxContentSize \<le> size_b s + length formatted \<or> length (batch s) = maxLogCount
        then handed (intake E h entry s) = handed s @ [batch s] \<and> batch (intake E h entry s) = []
        else handed (intake E h entry s) = handed s \<and> batch (intake E h entry s) = batch s)"
    if f: "Format E entry = Inr formatted" and big: "maxLogSize < length formatted"
    for entry formatted
  proof -
    have "\<exists>rp. reported (intake E h entry s) = rp @ [ErrTooLarge maxLogSize (length formatted)]"
      using f big by (simp add: intake_def Let_def report_def)
    then show ?thesis
      using big by (simp add: intake_handed [OF f] intake_batch [OF f])
  qed
  from a b show ?thesis by blast
qed

theorem oversize_line_dropped_witness:
  "(\<exists>rp. reported (intake (sample_env 200) (sample_hook 5 True) (Inr (line_of 262145))
       (final (run (sample_env 200) (sample_hook 5 True) [FireEv (Inr ''{1}'')] (start True [] 0))))
     = rp @ [ErrTooLarge maxLogSize 262145]) \<and>
   batch (intake (sample_env 200) (sample_hook 5 True) (Inr (line_of 262145))
       (final (run (sample_env 200) (sample_hook 5 True) [FireEv (Inr ''{1}'')] (start True [] 0))))
     = [''{1}'']"
proof -
  let ?E = "sample_env 200 :: (error + string, nat, DatadogHook) env"
  let ?h = "sample_hook 5 True"
  let ?s = "final (run ?E ?h [FireEv (Inr ''{1}'')] (start True [] 0))"
  have s: "batch ?s = [''{1}''] \<and> size_b ?s = 3 \<and> handed ?s = []"
    by (simp add: step_def Fire_def intake_def Let_def start_def maxContentSize_def
        maxLogCount_def maxLogSize_def)
  have big: "Format ?E (Inr (line_of 262145)) = Inr (line_of 262145) \<and> maxLogSize < length (line_of 262145)"
    by (simp add: maxLogSize_def)
  have on: "ClientBatchingEnabled ?h"
    by simp
  note all = oversize_line_dropped [where h = ?h and E = ?E and evs = "[FireEv (Inr ''{1}'')]"
      and s = ?s and logged = "[]" and ?n0.0 = 0, OF on refl]
  note this_line = all [THEN conjunct2, rule_format, OF big]
  have small: "\<not> (maxContentSize \<le> size_b ?s + length (line_of 262145) \<or> length (batch ?s) = maxLogCount)"
    using s by (simp add: maxContentSize_def maxLogCount_def)
  from this_line small s show ?thesis
    by simp
qed

text \<open>
  The claim as stated fails on the buffered batch: a line of 262145 bytes that arrives
  after nineteen lines of 256 kB is dropped, and the nineteen are handed to \<open>send\<close> by
  that same pass.
\<close>

theorem oversize_line_flushes_counterexample:
  "batch (final (run (sample_env 200) (sample_hook 5 True)
      (map FireEv (replicate 19 (Inr (line_of 262144)))) (start True [] 0)))
     = replicate 19 (line_of 262144) \<and>
   maxLogSize < length (line_of 262145) \<and>
   batch (final (run (sample_env 200) (sample_hook 5 True)
      (map FireEv (replicate 19 (Inr (line_of 262144)) @ [Inr (line_of 262145)])) (start True [] 0)))
     = [] \<and>
   handed (final (run (sample_env 200) (sample_hook 5 True)
      (map FireEv (replicate 19 (Inr (line_of 262144)) @ [Inr (line_of 262145)])) (start True [] 0)))
     = [replicate 19 (line_of 262144)]"
  unfolding map_append run_append nineteen_lines
  by (simp add: content_size_replicate maxContentSize_def maxLogCount_def maxLogSize_def
      step_def Fire_def intake_def Let_def start_def report_def)

text \<open>
  \<^bold>\<open>C4\<close>. An entry whose encoding fails is reported and dropped, but the \<^verbatim>\<open>return\<close> after
  the report ends the intake goroutine: the next \<open>Fire\<close> finds nobody to receive its
  entry and never returns. Here the first entry fails to encode and the second is fine.
\<close>

theorem encoding_failure_ends_intake:
  "run (sample_env 200) (sample_hook 5 True)
     [FireEv (Inl (ErrFormat ''unsupported value'')), FireEv (Inr ''{}'')] (start True [] 0)
   = Blocks ((start True [] 0)\<lparr>intake_alive := False, wg := 1,
       reported := [ErrFormat ''unsupported value'']\<rparr>)"
  by (simp add: step_def Fire_def intake_def Let_def start_def report_def)

text \<open>The same in general, and for a line above the maximum line size.\<close>

lemma encoding_failure_blocks_next_Fire:
  assumes "ClientBatchingEnabled h" and "intake_alive s" and "\<not> entryC_closed s"
    and "Format E entry = Inl err"
  shows "run E h (FireEv entry # FireEv entry' # evs) s
     = Blocks ((report err s)\<lparr>intake_alive := False, wg := wg s - 1\<rparr>)"
  using assms by (simp add: step_def Fire_def intake_format_error report_def)

lemma oversize_line_blocks_next_Fire:
  "run (sample_env 200) (sample_hook 5 True)
     [FireEv (Inr (line_of 262145)), FireEv (Inr ''{}'')] (start True [] 0)
   = Blocks ((start True [] 0)\<lparr>intake_alive := False, wg := 1,
       reported := [ErrTooLarge 262144 262145]\<rparr>)"
  by (simp add: step_def Fire_def intake_def Let_def start_def report_def
      maxLogSize_def maxContentSize_def maxLogCount_def)

subsection \<open>Construction\<close>

text \<open>
  \<^bold>\<open>C10\<close>. Whatever \<^verbatim>\<open>DATADOG_MAX_RETRIES\<close> holds, if it does not parse, then with an API
  key (the argument, or \<^verbatim>\<open>DATADOG_API_KEY\<close> when the argument is nil) construction
  succeeds and the hook's \<open>MaxRetry\<close> is the default, 5. (An empty value counts as unset:
  then the default string \<^verbatim>\<open>5\<close> is what is parsed.)
\<close>

theorem NewEnv_invalid_max_retries:
  assumes "getenv ''DATADOG_MAX_RETRIES'' = v"
    and "ParseInt v = Inl err"
    and "ParseInt ''5'' = Inr 5"
    and "(case apiKey of None \<Rightarrow> getenv ''DATADOG_API_KEY'' | Some k \<Rightarrow> k) \<noteq> []"
  shows "\<exists>h s. NewEnv getenv ParseInt apiKey minLevel n0 = Inr (h, s) \<and>
    MaxRetry h = defaultMaxRetries \<and> defaultMaxRetries = 5"
proof (cases "v = []")
  case True
  then have "ParseInt (getenvOrDefault getenv ''DATADOG_MAX_RETRIES'' ''5'') = Inr 5"
    using assms(1,3) by (simp add: getenvOrDefault_def)
  then show ?thesis
    using assms(4) by (simp add: NewEnv_def Let_def defaultMaxRetries_def)
next
  case False
  then have "ParseInt (getenvOrDefault getenv ''DATADOG_MAX_RETRIES'' ''5'') = Inl err"
    using assms(1,2) by (simp add: getenvOrDefault_def)
  then show ?thesis
    using assms(4) by (simp add: NewEnv_def Let_def defaultMaxRetries_def)
qed

theorem NewEnv_invalid_max_retries_witness:
  "\<exists>h s. NewEnv test_getenv decimalParseInt (Some ''apikey'') InfoLevel (0::nat) = Inr (h, s) \<and>
     MaxRetry h = 5"
  using NewEnv_invalid_max_retries [where getenv = test_getenv and v = "''INVALID VALUE!!!''"
      and ParseInt = decimalParseInt and err = "ErrParseInt ''INVALID VALUE!!!''"
      and apiKey = "Some ''apikey''" and minLevel = InfoLevel and ?n0.0 = "0::nat"]
  by (simp add: test_getenv_def decimalParseInt_def defaultMaxRetries_def)

lemma New_state:
  "New options n0 = Inr (h, s) \<Longrightarrow> s = start (ClientBatchingEnabled h) [] n0 \<and> ApiKey h \<noteq> []
     \<and> MaxRetry h = 5"
  by (auto simp: New_def Let_def split: option.splits if_splits)

lemma New_batching:
  "New (Some opts) n0 = Inr (h, s) \<Longrightarrow>
   ClientBatchingEnabled h = (case opt_ClientBatchingEnabled opts of None \<Rightarrow> True | Some b \<Rightarrow> b)"
  by (auto simp: New_def Let_def defaultClientBatching_def split: option.splits if_splits)

text \<open>
  \<^bold>\<open>C8\<close> (as amended). A hook built with batching switched off starts neither goroutine
  of \<open>batch\<close>, so no tick is ever acted on. In every state, a \<open>Fire\<close> whose entry
  encodes returns nil after one call of \<open>send\<close> with the batch of that single line, made
  inline; when the first attempt succeeds this is exactly one request, built for the
  line in brackets. A \<open>Fire\<close> whose entry does not encode returns the formatter's error
  and leaves the state as it was: nothing is handed to \<open>send\<close>, no request is made.
\<close>

theorem unbatched_Fire_sends_one_line:
  assumes "New (Some opts) n0 = Inr (h, s0)"
    and "opt_ClientBatchingEnabled opts = Some False"
  shows "\<not> intake_alive s0 \<and> \<not> ticker_alive s0 \<and>
    (case Format E entry of
       Inl err \<Rightarrow> Fire E h entry s = Returns (Some err) s
     | Inr formatted \<Rightarrow>
         Fire E h entry s = Returns None (send E h [formatted] s) \<and>
         handed (send E h [formatted] s) = handed s @ [[formatted]] \<and>
         batch (send E h [formatted] s) = batch s \<and>
         (\<forall>url req0. buildUrl E h = Inr url \<and>
            NewRequest E ''POST'' url (''['' @ formatted @ '']'') = Inr req0 \<and>
            \<not> failed (fst (Do E (req0\<lparr>req_header := headers h\<rparr>) (net s))) \<longrightarrow>
            requests (send E h [formatted] s) = requests s @ [req0\<lparr>req_header := headers h\<rparr>] \<and>
            reported (send E h [formatted] s) = reported s))"
proof -
  have off: "\<not> ClientBatchingEnabled h"
    using New_batching [OF assms(1)] assms(2) by simp
  have st: "s0 = start False [] n0" and key: "ApiKey h \<noteq> []"
    using New_state [OF assms(1)] off by simp_all
  have bad: "Fire E h entry s = Returns (Some err) s" if "Format E entry = Inl err" for err
    using off that by (simp add: Fire_def)
  have fire: "Fire E h entry s = Returns None (send E h [formatted] s)"
    if "Format E entry = Inr formatted" for formatted
    using off that by (simp add: Fire_def)
  have ok: "requests (send E h [formatted] s) = requests s @ [req0\<lparr>req_header := headers h\<rparr>] \<and>
        reported (send E h [formatted] s) = reported s"
    if u: "buildUrl E h = Inr url"
      and r: "NewRequest E ''POST'' url (''['' @ formatted @ '']'') = Inr req0"
      and a: "\<not> failed (fst (Do E (req0\<lparr>req_header := headers h\<rparr>) (net s)))"
    for url req0 formatted
  proof -
    let ?req = "req0\<lparr>req_header := headers h\<rparr>"
    let ?s = "s\<lparr>handed := handed s @ [[formatted]]\<rparr>"
    have "send E h [formatted] s = retry E h ?req 0 ?s"
      using key u r by (intro send_retry [where url = url]) (simp_all add: frame_single)
    moreover obtain resp n' where d: "Do E ?req (net ?s) = (resp, n')"
      by (cases "Do E ?req (net ?s)")
    moreover have "\<not> failed resp"
      using a d by simp
    ultimately show ?thesis
      using retry_ok [of E ?req ?s resp n' h 0] by simp
  qed
  show ?thesis
  proof (cases "Format E entry")
    case (Inl err)
    then show ?thesis using st bad by (simp add: start_def)
  next
    case (Inr formatted)
    then show ?thesis using st fire [OF Inr] ok by (simp add: start_def)
  qed
qed

theorem unbatched_Fire_sends_one_line_witness:
  "Fire (sample_env 200) (sample_hook 5 False) (Inr ''{}'') (start False [] 0)
     = Returns None (send (sample_env 200) (sample_hook 5 False) [''{}''] (start False [] 0)) \<and>
   handed (send (sample_env 200) (sample_hook 5 False) [''{}''] (start False [] 0)) = [[''{}'']] \<and>
   requests (send (sample_env 200) (sample_hook 5 False) [''{}''] (start False [] 0))
     = [sample_request ''[{}]''] \<and>
   Fire (sample_env 200) (sample_hook 5 False) (Inl (ErrFormat ''unsupported value''))
       (send (sample_env 200) (sample_hook 5 False) [''{}''] (start False [] 0))
     = Returns (Some (ErrFormat ''unsupported value''))
         (send (sample_env 200) (sample_hook 5 False) [''{}''] (start False [] 0))"
proof -
  let ?opts = "\<lparr>opt_ApiKey = Some ''apikey'', opt_MinimumLoggingLevel = None,
      opt_DatadogEndpoint = None, opt_Service = None, opt_Host = None, opt_Source = None,
      opt_GlobalTags = None, opt_ClientBatchingEnabled = Some False\<rparr>"
  let ?E = "sample_env 200 :: (error + string, nat, DatadogHook) env"
  let ?h = "sample_hook 5 False"
  let ?url = "''https://http-intake.logs.datadoghq.com/v1/input''"
  let ?req0 = "\<lparr>req_method = ''POST'', req_url = ?url, req_header = [], req_body = ''[{}]''\<rparr>"
  have new: "New (Some ?opts) (0::nat) = Inr (?h, start False [] 0)"
    by (simp add: New_def sample_hook_def defaultService_def defaultHost_def defaultSource_def)
  have off: "opt_ClientBatchingEnabled ?opts = Some False"
    by simp
  have f1: "Format ?E (Inr ''{}'') = Inr ''{}''"
    and f2: "Format ?E (Inl (ErrFormat ''unsupported value'')) = Inl (ErrFormat ''unsupported value'')"
    by simp_all
  note t1 = unbatched_Fire_sends_one_line [OF new off, where E = ?E and entry = "Inr ''{}''"
      and s = "start False [] 0", unfolded f1 sum.case]
  note t2 = unbatched_Fire_sends_one_line [OF new off, where E = ?E
      and entry = "Inl (ErrFormat ''unsupported value'')"
      and s = "send ?E ?h [''{}''] (start False [] 0)", unfolded f2 sum.case]
  have pre: "buildUrl ?E ?h = Inr ?url \<and>
     NewRequest ?E ''POST'' ?url (''['' @ ''{}'' @ '']'') = Inr ?req0 \<and>
     \<not> failed (fst (Do ?E (?req0\<lparr>req_header := headers ?h\<rparr>) (net (start False [] (0::nat)))))"
    by (simp add: sample_env_def sample_hook_def DatadogHostUS_def basePath_def failed_def)
  have hd: "?req0\<lparr>req_header := headers ?h\<rparr> = sample_request ''[{}]''"
    by (simp add: sample_request_def headers_def apiKeyHeader_def sample_hook_def)
  from t1 have a: "Fire ?E ?h (Inr ''{}'') (start False [] 0)
       = Returns None (send ?E ?h [''{}''] (start False [] 0))"
    and b: "handed (send ?E ?h [''{}''] (start False [] 0)) = handed (start False [] (0::nat)) @ [[''{}'']]"
    and c: "\<forall>url req0. buildUrl ?E ?h = Inr url \<and>
            NewRequest ?E ''POST'' url (''['' @ ''{}'' @ '']'') = Inr req0 \<and>
            \<not> failed (fst (Do ?E (req0\<lparr>req_header := headers ?h\<rparr>) (net (start False [] (0::nat))))) \<longrightarrow>
            requests (send ?E ?h [''{}''] (start False [] 0))
              = requests (start False [] (0::nat)) @ [req0\<lparr>req_header := headers ?h\<rparr>] \<and>
            reported (send ?E ?h [''{}''] (start False [] 0)) = reported (start False [] (0::nat))"
    by blast+
  from c [rule_format, OF pre] hd
  have d: "requests (send ?E ?h [''{}''] (start False [] 0)) = [sample_request ''[{}]'']"
    by (simp add: start_def)
  from t2 have e: "Fire ?E ?h (Inl (ErrFormat ''unsupported value'')) (send ?E ?h [''{}''] (start False [] 0))
     = Returns (Some (ErrFormat ''unsupported value'')) (send ?E ?h [''{}''] (start False [] 0))"
    by blast
  from a b d e show ?thesis
    by (simp add: start_def)
qed

text \<open>
  The claim as stated fails for an entry that does not encode: \<open>Fire\<close> returns the
  formatter's error, and nothing is handed to \<open>send\<close>.
\<close>

theorem unbatched_Fire_encoding_failure_counterexample:
  "New (Some \<lparr>opt_ApiKey = Some ''apikey'', opt_MinimumLoggingLevel = None,
      opt_DatadogEndpoint = None, opt_Service = None, opt_Host = None, opt_Source = None,
      opt_GlobalTags = None, opt_ClientBatchingEnabled = Some False\<rparr>) (0::nat)
     = Inr (sample_hook 5 False, start False [] 0) \<and>
   Fire (sample_env 200) (sample_hook 5 False) (Inl (ErrFormat ''unsupported value'')) (start False [] 0)
     = Returns (Some (ErrFormat ''unsupported value'')) (start False [] 0) \<and>
   handed (start False [] (0::nat)) = [] \<and> requests (start False [] (0::nat)) = []"
  by (simp add: New_def sample_hook_def defaultService_def defaultHost_def defaultSource_def
      Fire_def start_def)

subsection \<open>Close\<close>

lemma NewEnv_defaults:
  "NewEnv (\<lambda>key. []) decimalParseInt (Some ''apikey'') InfoLevel n0
     = Inr (sample_hookEnv, start True [] n0)"
  by (simp add: NewEnv_def getenvOrDefault_def decimalParseInt_def ToLower_def sample_hookEnv_def)

lemma intake_running: "running s \<Longrightarrow> intake_alive s \<Longrightarrow> running (intake E h entry s)"
  by (cases "Format E entry") (auto simp: running_def intake_def Let_def report_def)

lemma tick_running: "running s \<Longrightarrow> running (tick E h s)"
  by (simp add: running_def tick_def)

lemma run_running:
  "ClientBatchingEnabled h \<Longrightarrow> CloseEv \<notin> set evs \<Longrightarrow> running s \<Longrightarrow>
   run E h evs s = Returns () s' \<Longrightarrow> running s'"
proof (induction evs arbitrary: s)
  case Nil
  then show ?case by simp
next
  case (Cons ev evs)
  show ?case
  proof (cases ev)
    case (FireEv entry)
    show ?thesis
    proof (cases "intake_alive s")
      case True
      then have "step E h ev s = Returns () (intake E h entry s)"
        using FireEv Cons.prems(1,3) by (simp add: step_def Fire_def running_def)
      moreover have "running (intake E h entry s)"
        using Cons.prems(3) True by (rule intake_running)
      ultimately show ?thesis
        using Cons.IH [of "intake E h entry s"] Cons.prems by simp
    next
      case False
      then have "step E h ev s = Blocks s"
        using FireEv Cons.prems(1,3) by (simp add: step_def Fire_def running_def)
      then show ?thesis using Cons.prems(4) by simp
    qed
  next
    case TickEv
    then have "step E h ev s = Returns () (if ticker_alive s \<and> \<not> ticker_stopped s then tick E h s else s)"
      by (simp add: step_def)
    moreover have "running (if ticker_alive s \<and> \<not> ticker_stopped s then tick E h s else s)"
      using Cons.prems(3) by (simp add: tick_running)
    ultimately show ?thesis
      using Cons.IH [of "if ticker_alive s \<and> \<not> ticker_stopped s then tick E h s else s"] Cons.prems
      by simp
  next
    case CloseEv
    then show ?thesis using Cons.prems(2) by simp
  qed
qed

lemma running_start: "running (start True logged n0)"
  by (simp add: running_def start_def)

text \<open>
  The options version: from every state a hook with batching reaches before \<open>Close\<close>,
  \<open>Close\<close> closes the intake, stops the ticker, hands the buffered batch to \<open>send\<close> and
  returns once both goroutines are done.
\<close>

lemma Close_final_flush:
  assumes "ClientBatchingEnabled h" and "CloseEv \<notin> set evs"
    and "run E h evs (start True logged n0) = Returns () s"
  shows "\<exists>s'. Close E h s = Returns () s' \<and> handed s' = handed s @ [batch s] \<and>
    entryC_closed s' \<and> ticker_stopped s' \<and> \<not> intake_alive s' \<and> \<not> ticker_alive s' \<and> wg s' = 0"
proof -
  have "running s"
    using run_running [OF assms(1,2) running_start assms(3)] .
  then show ?thesis
    by (auto simp: running_def Close_def on_done_def Let_def)
qed

text \<open>
  The version of \<^verbatim>\<open>datadog/datadog.go\<close>: \<open>CloseEnv\<close> hands nothing to \<open>send\<close>, and from no
  state a hook reaches before it does it return.
\<close>

lemma CloseEnv_sends_nothing:
  "handed (final (CloseEnv s)) = handed s \<and> requests (final (CloseEnv s)) = requests s \<and>
   batch (final (CloseEnv s)) = batch s"
  by (simp add: CloseEnv_def Let_def)

lemma intakeEnv_runningEnv: "runningEnv s \<Longrightarrow> runningEnv (intakeEnv E h entry s)"
  by (cases "Format E entry") (auto simp: runningEnv_def intakeEnv_def Let_def report_def)

lemma tick_runningEnv: "runningEnv s \<Longrightarrow> runningEnv (tick E h s)"
  by (simp add: runningEnv_def tick_def)

lemma CloseEnv_blocks: "runningEnv s \<Longrightarrow> \<not> returns (CloseEnv s)"
  by (auto simp: runningEnv_def CloseEnv_def Let_def)

lemma runEnv_runningEnv:
  "CloseEv \<notin> set evs \<Longrightarrow> runningEnv s \<Longrightarrow> runEnv E h evs s = Returns () s' \<Longrightarrow> runningEnv s'"
proof (induction evs arbitrary: s)
  case Nil
  then show ?case by simp
next
  case (Cons ev evs)
  show ?case
  proof (cases ev)
    case (FireEv entry)
    show ?thesis
    proof (cases "intake_alive s")
      case True
      then have "stepEnv E h ev s = Returns () (intakeEnv E h entry s)"
        using FireEv Cons.prems(2) by (simp add: stepEnv_def FireEnv_def runningEnv_def)
      moreover have "runningEnv (intakeEnv E h entry s)"
        using Cons.prems(2) by (rule intakeEnv_runningEnv)
      ultimately show ?thesis
        using Cons.IH [of "intakeEnv E h entry s"] Cons.prems by simp
    next
      case False
      then have "stepEnv E h ev s = Blocks s"
        using FireEv Cons.prems(2) by (simp add: stepEnv_def FireEnv_def runningEnv_def)
      then show ?thesis using Cons.prems(3) by simp
    qed
  next
    case TickEv
    then have "stepEnv E h ev s = Returns () (if ticker_alive s \<and> \<not> ticker_stopped s then tick E h s else s)"
      by (simp add: stepEnv_def)
    moreover have "runningEnv (if ticker_alive s \<and> \<not> ticker_stopped s then tick E h s else s)"
      using Cons.prems(2) by (simp add: tick_runningEnv)
    ultimately show ?thesis
      using Cons.IH [of "if ticker_alive s \<and> \<not> ticker_stopped s then tick E h s else s"] Cons.prems
      by simp
  next
    case CloseEv
    then show ?thesis using Cons.prems(1) by simp
  qed
qed

lemma CloseEnv_never_returns:
  assumes "CloseEv \<notin> set evs" and "runEnv E h evs (start True logged n0) = Returns () s"
  shows "\<not> returns (CloseEnv s) \<and> handed (final (CloseEnv s)) = handed s"
proof -
  have "runningEnv (start True logged n0)"
    by (simp add: runningEnv_def start_def)
  then have "runningEnv s"
    using runEnv_runningEnv [OF assms(1) _ assms(2)] by simp
  then show ?thesis
    using CloseEnv_blocks CloseEnv_sends_nothing by blast
qed

text \<open>
  \<^bold>\<open>C3\<close>. In \<^verbatim>\<open>datadog/datadog.go\<close> the claim fails: a hook built from an empty environment
  buffers one entry and is closed. \<open>CloseEnv\<close> closes the intake and stops the ticker,
  and then waits for ever for the second goroutine; the buffered line is still in the
  batch, nothing was handed to \<open>send\<close> and no request was made.
\<close>

theorem CloseEnv_leaves_batch_unsent:
  "NewEnv (\<lambda>key. []) decimalParseInt (Some ''apikey'') InfoLevel 0
     = Inr (sample_hookEnv, start True [] 0) \<and>
   runEnv (sample_envEnv 200) sample_hookEnv [FireEv (Inr ''{}''), CloseEv] (start True [] 0)
     = Blocks ((start True [] 0)\<lparr>batch := [''{}''], size_b := 2, intake_alive := False, wg := 1,
         entryC_closed := True, ticker_stopped := True\<rparr>)"
  by (simp add: NewEnv_defaults stepEnv_def FireEnv_def intakeEnv_def CloseEnv_def Let_def start_def
      maxContentSize_def maxLogCount_def maxLogSize_def sample_envEnv_def)

text \<open>The two intake loops differ in the wait group only.\<close>

lemma intakeEnv_intake:
  "(intakeEnv E h entry s)\<lparr>wg := w\<rparr> = (intake E h entry s)\<lparr>wg := w\<rparr>"
  by (cases "Format E entry") (auto simp: intakeEnv_def intake_def Let_def report_def)

end
